theory Spec2Isabelle
  imports Main "HOL-Library.List_Lexorder" "HOL-Library.Char_ord" "HOL-Library.Multiset"
begin

section \<open>Go values\<close>

text \<open>
  Go strings are byte sequences compared bytewise; \<open>string\<close> with the lexicographic
  order of \<open>List_Lexorder\<close> over \<open>Char_ord\<close> is the same order. A Go slice is
  \<open>nil\<close> or holds elements, and \<open>reflect.DeepEqual\<close> tells a nil slice from an
  empty one, so the slices that are compared that way are options of lists.
\<close>

type_synonym 'a slice = "'a list option"

definition elems :: "'a slice \<Rightarrow> 'a list" where
  "elems s = (case s of None \<Rightarrow> [] | Some xs \<Rightarrow> xs)"

text \<open>A run-time panic of the Go program is a value of the model.\<close>

datatype fault = NilDereference | IndexOutOfRange

text \<open>\<open>strings.HasPrefix\<close>, \<open>strings.TrimPrefix\<close>, \<open>strings.TrimSuffix\<close>.\<close>

definition HasPrefix :: "string \<Rightarrow> string \<Rightarrow> bool" where
  "HasPrefix s pre = (take (length pre) s = pre)"

definition TrimPrefix :: "string \<Rightarrow> string \<Rightarrow> string" where
  "TrimPrefix s pre = (if HasPrefix s pre then drop (length pre) s else s)"

definition TrimSuffix :: "string \<Rightarrow> string \<Rightarrow> string" where
  "TrimSuffix s suf =
     (if length suf \<le> length s \<and> drop (length s - length suf) s = suf
      then take (length s - length suf) s else s)"

text \<open>
  \<open>strings.ToLower\<close> on ASCII letters (the values it is applied to are the route API's
  \<open>None\<close>, \<open>Allow\<close> and \<open>Redirect\<close>); other bytes are kept.
\<close>

definition lowerChar :: "char \<Rightarrow> char" where
  "lowerChar c =
     (case map_of (zip ''ABCDEFGHIJKLMNOPQRSTUVWXYZ'' ''abcdefghijklmnopqrstuvwxyz'') c of
        Some l \<Rightarrow> l
      | None \<Rightarrow> c)"

definition ToLower :: "string \<Rightarrow> string" where
  "ToLower s = map lowerChar s"

text \<open>\<open>strings.ReplaceAll\<close> for a one-byte pattern and a one-byte replacement.\<close>

definition ReplaceAll1 :: "string \<Rightarrow> char \<Rightarrow> char \<Rightarrow> string" where
  "ReplaceAll1 s old new = map (\<lambda>c. if c = old then new else c) s"

text \<open>
  \<open>AS3NameFormatter\<close> (resourceConfig.go): the six replacements, in the order of
  \<open>SpecialChars\<close>.
\<close>

definition AS3NameFormatter :: "string \<Rightarrow> string" where
  "AS3NameFormatter name =
     foldl (\<lambda>n (k, v). ReplaceAll1 n k v) name
       [(CHR ''.'', CHR ''_''), (CHR '':'', CHR ''_''), (CHR ''/'', CHR ''_''),
        (CHR ''%'', CHR ''.''), (CHR ''-'', CHR ''_''), (CHR ''='', CHR ''_'')]"

text \<open>Decimal printing of an integer, as \<open>fmt.Sprint\<close> and \<open>%d\<close> do.\<close>

fun digitsOf :: "nat \<Rightarrow> string" where
  "digitsOf n =
     (if n < 10 then [''0123456789'' ! n]
      else digitsOf (n div 10) @ [''0123456789'' ! (n mod 10)])"

declare digitsOf.simps [simp del]

definition Sprint :: "int \<Rightarrow> string" where
  "Sprint i = (if i < 0 then CHR ''-'' # digitsOf (nat (- i)) else digitsOf (nat i))"

text \<open>
  \<open>sort.Slice\<close> and \<open>sort.Sort\<close> of the Go standard library, on the slices of at most
  twelve elements for which the library runs its insertion sort:
  \<open>for i := 1; i < n; i++ { for j := i; j > 0 && less(j, j-1); j-- { swap(j, j-1) } }\<close>.
  \<open>insertLess\<close> moves the new element leftwards over a prefix held in reverse.
  The library's result on longer slices is a permutation too; the theorems below that
  speak of order say which property of the comparison they rest on.
\<close>

fun insertLess :: "('a \<Rightarrow> 'a \<Rightarrow> bool) \<Rightarrow> 'a \<Rightarrow> 'a list \<Rightarrow> 'a list" where
  "insertLess lt x [] = [x]"
| "insertLess lt x (y # ys) =
     (if lt x y then y # insertLess lt x ys else x # y # ys)"

definition sortSlice :: "('a \<Rightarrow> 'a \<Rightarrow> bool) \<Rightarrow> 'a list \<Rightarrow> 'a list" where
  "sortSlice lt xs = rev (foldl (\<lambda>p x. insertLess lt x p) [] xs)"


section \<open>Internal data groups (resourceConfig.go)\<close>

text \<open>
  Go strings are byte sequences compared bytewise; \<open>string\<close> with the lexicographic
  order of \<open>List_Lexorder\<close> over \<open>Char_ord\<close> is the same order.
\<close>

record InternalDataGroupRecord =
  Name_rec :: string
  Data_rec :: string

text \<open>
  \<open>sort.Search(n, f)\<close> of the Go standard library: binary search for the smallest
  index in \<open>[0, n]\<close> at which \<open>f\<close> holds, \<open>i, j := 0, n\<close>, then
  \<open>for i < j { h := (i+j)/2; if !f(h) { i = h+1 } else { j = h } }\<close>.
\<close>

function searchLoop :: "(nat \<Rightarrow> bool) \<Rightarrow> nat \<Rightarrow> nat \<Rightarrow> nat" where
  "searchLoop f i j =
     (if i < j then
        (let h = (i + j) div 2 in
         if \<not> f h then searchLoop f (h + 1) j else searchLoop f i h)
      else i)"
  by pat_completeness auto
termination
  by (relation "measure (\<lambda>(f, i, j). j - i)") auto

declare searchLoop.simps [simp del]

definition sortSearch :: "nat \<Rightarrow> (nat \<Rightarrow> bool) \<Rightarrow> nat" where
  "sortSearch n f = searchLoop f 0 n"

text \<open>
  \<open>InternalDataGroup.AddOrUpdateRecord\<close>: the records after the call and the
  returned flag. The insertion \<open>append; copy(Records[i+1:], Records[i:]); Records[i] = r\<close>
  is \<open>take i @ [r] @ drop i\<close>.
\<close>

definition AddOrUpdateRecord ::
  "InternalDataGroupRecord list \<Rightarrow> string \<Rightarrow> string \<Rightarrow> InternalDataGroupRecord list \<times> bool" where
  "AddOrUpdateRecord Records name data =
     (let i = sortSearch (length Records) (\<lambda>i. Name_rec (Records ! i) \<ge> name) in
      if i < length Records \<and> Name_rec (Records ! i) = name then
        (if Data_rec (Records ! i) \<noteq> data
         then (Records[i := (Records ! i)\<lparr>Data_rec := data\<rparr>], True)
         else (Records, False))
      else (take i Records @ [\<lparr>Name_rec = name, Data_rec = data\<rparr>] @ drop i Records, True))"

text \<open>
  \<open>InternalDataGroup.RemoveRecord\<close>: \<open>copy(Records[i:], Records[i+1:])\<close> and the
  truncation by one drop the record at index \<open>i\<close>.
\<close>

definition RemoveRecord ::
  "InternalDataGroupRecord list \<Rightarrow> string \<Rightarrow> InternalDataGroupRecord list \<times> bool" where
  "RemoveRecord Records name =
     (let nbrRecs = length Records;
          i = sortSearch nbrRecs (\<lambda>i. Name_rec (Records ! i) \<ge> name) in
      if i < nbrRecs \<and> Name_rec (Records ! i) = name then
        (take i Records @ drop (i + 1) Records, True)
      else (Records, False))"

text \<open>The invariant: record names strictly ascending (sorted, no duplicate).\<close>

definition recordsSorted :: "InternalDataGroupRecord list \<Rightarrow> bool" where
  "recordsSorted Records = sorted_wrt (<) (map Name_rec Records)"


section \<open>Data model\<close>

text \<open>
  The structs of the controller, with the fields that the modelled functions read or
  write. A field name that several structs share carries the struct as a suffix. The
  struct declarations themselves (types.go) are not among the sources; the fields and
  their types are those the two source files use.
\<close>

subsection \<open>Extended route specification\<close>

record HealthMonitor =
  Path_hm :: string
  Type_hm :: string
  Send_hm :: string
  Recv_hm :: string
  Interval_hm :: int
  Timeout_hm :: int

record TLS =
  ClientSSL :: string
  ServerSSL :: string
  Reference :: string

text \<open>\<open>DependsOnTLSCipher\<close> is the field \<open>Meta.DependsOnTLSCipher\<close> of the spec.\<close>

record ExtendedRouteGroupSpec =
  VServerName :: string
  VServerAddr :: string
  AllowSourceRange_spec :: "string slice"
  SNAT_spec :: string
  WAF_spec :: string
  IRules_spec :: "string slice"
  HealthMonitors :: "HealthMonitor slice"
  TLS_spec :: TLS
  DependsOnTLSCipher :: bool

text \<open>
  \<open>extendedParsedSpec\<close>: \<open>local_eps\<close> and \<open>global_eps\<close> are the pointers \<open>local\<close>
  and \<open>global\<close>, \<open>None\<close> for nil. \<open>getExtendedRouteSpec\<close> (resourceConfig.go)
  dereferences \<open>override\<close> (\<open>*extdSpec.override\<close>), so the field is a pointer to a
  \<open>bool\<close>, \<open>None\<close> for nil. nativeResourceWorker.go assigns and compares the flag
  itself (\<open>override: allowOverride\<close>, \<open>spec.override != newSpec.override\<close>): there
  an assignment stores \<open>Some\<close> of the flag and a comparison compares the values.
\<close>

record extendedParsedSpec =
  override :: "bool option"
  local_eps :: "ExtendedRouteGroupSpec option"
  global_eps :: "ExtendedRouteGroupSpec option"
  namespaces :: "string slice"
  partition_eps :: string

text \<open>
  \<open>extendedSpecMap\<close> is a Go map from route-group key to \<open>*extendedParsedSpec\<close>. The
  code ranges over it, in an order Go leaves open; the model keeps the entries in a list
  with distinct keys and ranges in the list's order.
\<close>

type_synonym extendedSpecMap = "(string \<times> extendedParsedSpec) list"

subsection \<open>Routes\<close>

record IntOrString =
  IntVal :: int
  StrVal :: string

record TLSConfig =
  Termination :: string
  InsecureEdgeTerminationPolicy :: string
  Certificate_rt :: string
  Key_rt :: string
  CACertificate :: string
  DestinationCACertificate :: string

text \<open>
  A route of the OpenShift API: \<open>CreationTimestamp\<close> is a \<open>metav1.Time\<close>, an instant
  that the code compares with \<open>Before\<close> and \<open>==\<close>, here an integer; \<open>To\<close> is
  \<open>Spec.To.Name\<close>, \<open>AlternateBackends\<close> the names of \<open>Spec.AlternateBackends\<close>,
  \<open>TargetPort\<close> is \<open>Spec.Port.TargetPort\<close> (\<open>None\<close> when \<open>Spec.Port\<close> is nil),
  \<open>TLS_rt\<close> is the pointer \<open>Spec.TLS\<close>.
\<close>

record Route =
  Namespace_rt :: string
  Name_rt :: string
  CreationTimestamp :: int
  Annotations :: "string \<rightharpoonup> string"
  Host :: string
  Path_rt :: string
  To :: string
  AlternateBackends :: "string list"
  TargetPort :: "IntOrString option"
  TLS_rt :: "TLSConfig option"

subsection \<open>Policies and rules\<close>

text \<open>
  Actions are built by functions that are not among the sources and are only counted and
  appended here. Of a condition the code reads \<open>HTTPHost\<close>, \<open>Tcp\<close> and \<open>Values\<close>.
\<close>

datatype action = Action string

record condition =
  HTTPHost :: bool
  Tcp :: bool
  Values :: "string list"

record Rule =
  Name_rule :: string
  FullURI :: string
  Ordinal :: int
  Actions :: "action list"
  Conditions :: "condition list"

record Policy =
  Name_pol :: string
  Partition_pol :: string
  Controls :: "string list"
  Requires :: "string list"
  Rules :: "Rule list"

subsection \<open>Resource configuration\<close>

record Pool =
  Name_pool :: string
  Partition_pool :: string
  ServiceName :: string
  ServiceNamespace :: string
  ServicePort :: int
  NodeMemberLabel :: string
  Balance :: string
  MonitorNames :: "string list"
  Members :: "string list"

record Monitor =
  Name_mon :: string
  Partition_mon :: string
  Interval_mon :: int
  Type_mon :: string
  Send_mon :: string
  Recv_mon :: string
  Timeout_mon :: int
  Path_mon :: string
  InUse :: bool

record ProfileRef =
  Name_prof :: string
  Partition_prof :: string
  Context :: string
  Namespace_prof :: string
  BigIPProfile :: bool

record nameRef =
  Name_ref :: string
  Partition_ref :: string

record virtualAddress =
  BindAddr :: string
  Port_va :: int

text \<open>
  \<open>Virtual.Destination\<close>, a string that \<open>SetVirtualAddress\<close> formats with
  \<open>net.ParseIP\<close>, is left out: no modelled function reads it.
\<close>

record Virtual =
  Name_vs :: string
  Partition_vs :: string
  Enabled :: bool
  VirtualAddress :: "virtualAddress option"
  SNAT_vs :: string
  WAF_vs :: string
  IRules_vs :: "string slice"
  AllowSourceRange_vs :: "string slice"
  Profiles :: "ProfileRef list"
  Policies_vs :: "nameRef list"

record IRule =
  Name_irule :: string
  Partition_irule :: string
  Code_irule :: string

record InternalDataGroup =
  Name_idg :: string
  Partition_idg :: string
  Records :: "InternalDataGroupRecord list"

record CustomProfile =
  Name_cp :: string
  Partition_cp :: string
  Context_cp :: string
  Cert :: string
  Key_cp :: string
  ServerName :: string
  SNIDefault :: bool
  PeerCertMode :: string
  CAFile :: string
  ChainCA :: string

record SecretKey =
  Name_sk :: string
  ResourceName :: string

record MetaData =
  ResourceType :: string
  Protocol :: string
  baseResources :: "string \<rightharpoonup> string"
  hosts :: "string list"

type_synonym InternalDataGroupMap = "nameRef \<rightharpoonup> (string \<rightharpoonup> InternalDataGroup)"
type_synonym IRulesMap = "nameRef \<rightharpoonup> IRule"
type_synonym CustomProfiles = "SecretKey \<rightharpoonup> CustomProfile"

record ResourceConfig =
  MetaData :: MetaData
  Virtual :: Virtual
  Pools :: "Pool list"
  Monitors :: "Monitor list"
  Policies :: "Policy list"
  IntDgMap :: InternalDataGroupMap
  IRulesMap :: IRulesMap
  customProfiles :: CustomProfiles

record portStruct =
  protocol_ps :: string
  port_ps :: int

record poolPathRef =
  path_ppr :: string
  poolName_ppr :: string

record BigIPSSLProfiles =
  clientSSL :: string
  serverSSL :: string
  key_bp :: string
  certificate_bp :: string
  caCertificate_bp :: string
  destinationCACertificate_bp :: string

record TLSContext =
  name_tc :: string
  namespace_tc :: string
  resourceType_tc :: string
  referenceType :: string
  hostname :: string
  httpsPort :: int
  ipAddress :: string
  termination_tc :: string
  httpTraffic :: string
  poolPathRefs :: "poolPathRef list"
  bigIPSSLProfiles :: BigIPSSLProfiles

subsection \<open>Resource store and controller\<close>

type_synonym ResourceMap = "string \<rightharpoonup> ResourceConfig"
type_synonym LTMConfig = "string \<rightharpoonup> ResourceMap"

record WideIP =
  DomainName :: string
  RecordType :: string
  LBMethod :: string

type_synonym DNSConfig = "string \<rightharpoonup> WideIP"

record resourceRef =
  kind_rr :: string
  namespace_rr :: string
  name_rr :: string

record ResourceStore =
  ltmConfig :: LTMConfig
  ltmConfigCache :: LTMConfig
  dnsConfig :: DNSConfig
  dnsConfigCache :: DNSConfig
  extdSpecMap :: extendedSpecMap
  processedNativeResources :: "resourceRef set"

datatype Secret = Secret string string

record ResourceConfigRequest =
  ltmConfig_req :: LTMConfig
  shareNodes_req :: bool
  gtmConfig_req :: DNSConfig
  defaultRouteDomain_req :: int

text \<open>
  The controller's mutable state. \<open>admitStatus\<close> records, in order, the route key and
  the reason of each \<open>go ctlr.updateRouteAdmitStatus(...)\<close> that was started (the
  write-back itself runs asynchronously and is not modelled); \<open>posted\<close> records the
  requests handed to \<open>Agent.PostConfig\<close>.
\<close>

record Controller =
  resources :: ResourceStore
  processedHostPathMap :: "string \<rightharpoonup> int"
  SSLContext :: "string \<rightharpoonup> Secret"
  initState :: bool
  shareNodes :: bool
  defaultRouteDomain :: int
  admitStatus :: "(string \<times> string) list"
  posted :: "ResourceConfigRequest list"


section \<open>What the modelled code calls but the sources do not contain\<close>

text \<open>
  The two source files call informers, the Kubernetes client and helpers of the
  repository that are defined in other files. They are parameters of the model,
  collected in one record; the theorems hold for every value of it.

  \<^item> \<open>routeCache ns\<close>: the routes held by the native informer of namespace \<open>ns\<close>, in the
    order of its indexer, or \<open>None\<close> when \<open>getNamespacedNativeInformer\<close> finds none;
  \<^item> \<open>essentialInformer ns\<close>: whether \<open>getNamespacedEssentialInformer\<close> finds one;
  \<^item> \<open>GetServicePort ns svc portName\<close>: the port and whether \<open>resource.GetServicePort\<close>
    returned an error;
  \<^item> \<open>checkCertificateHost host cert key\<close>;
  \<^item> \<open>createRule uri poolName ruleName allowSourceRange\<close>, \<open>None\<close> for an error;
  \<^item> \<open>getRewriteActions path rewritePath n\<close>, \<open>None\<close> for an error;
  \<^item> \<open>formatVirtualServerRuleName host namespace path pool\<close>;
  \<^item> \<open>RulesLess\<close>: the order \<open>Rules.Less\<close> that \<open>sort.Sort\<close> uses on rules;
  \<^item> the package variable \<open>DEFAULT_PARTITION\<close> and the annotation keys;
  \<^item> \<open>getSecret ns name\<close>: the secret the API server returns, \<open>None\<close> for an error;
  \<^item> the four functions that create SSL profiles: whether they returned an error, and
    the custom profiles of the config and the profile references of its virtual
    server after the call (the parts of the config they are taken to touch);
  \<^item> \<open>updateDataGroup\<close> and \<open>updateDataGroupOfDgName\<close>: the data-group map after the
    call; the texts of the iRules;
  \<^item> \<open>poolMembersFor ns pool\<close>: the members that \<open>updatePoolMembersForNodePort\<close> or
    \<open>updatePoolMembersForCluster\<close> gives a pool of namespace \<open>ns\<close>.
\<close>

record env =
  routeCache :: "string \<Rightarrow> Route list option"
  essentialInformer :: "string \<Rightarrow> bool"
  GetServicePort :: "string \<Rightarrow> string \<Rightarrow> string \<Rightarrow> int \<times> bool"
  checkCertificateHost :: "string \<Rightarrow> string \<Rightarrow> string \<Rightarrow> bool"
  createRule :: "string \<Rightarrow> string \<Rightarrow> string \<Rightarrow> string slice \<Rightarrow> Rule option"
  getRewriteActions :: "string \<Rightarrow> string \<Rightarrow> nat \<Rightarrow> action list option"
  formatVirtualServerRuleName :: "string \<Rightarrow> string \<Rightarrow> string \<Rightarrow> string \<Rightarrow> string"
  RulesLess :: "Rule \<Rightarrow> Rule \<Rightarrow> bool"
  DEFAULT_PARTITION :: string
  URLRewriteAnnotation :: string
  F5VsBalanceAnnotation :: string
  getSecret :: "string \<Rightarrow> string \<Rightarrow> Secret option"
  createSecretClientSSLProfile ::
    "Secret \<Rightarrow> string \<Rightarrow> CustomProfiles \<Rightarrow> ProfileRef list \<Rightarrow> bool \<times> CustomProfiles \<times> ProfileRef list"
  createSecretServerSSLProfile ::
    "Secret \<Rightarrow> string \<Rightarrow> CustomProfiles \<Rightarrow> ProfileRef list \<Rightarrow> bool \<times> CustomProfiles \<times> ProfileRef list"
  createClientSSLProfile ::
    "string \<Rightarrow> string \<Rightarrow> string \<Rightarrow> string \<Rightarrow> string \<Rightarrow> CustomProfiles \<Rightarrow> ProfileRef list
       \<Rightarrow> bool \<times> CustomProfiles \<times> ProfileRef list"
  createServerSSLProfile ::
    "string \<Rightarrow> string \<Rightarrow> string \<Rightarrow> string \<Rightarrow> string \<Rightarrow> CustomProfiles \<Rightarrow> ProfileRef list
       \<Rightarrow> bool \<times> CustomProfiles \<times> ProfileRef list"
  updateDataGroup ::
    "InternalDataGroupMap \<Rightarrow> string \<Rightarrow> string \<Rightarrow> string \<Rightarrow> string \<Rightarrow> string \<Rightarrow> InternalDataGroupMap"
  updateDataGroupOfDgName ::
    "InternalDataGroupMap \<Rightarrow> poolPathRef list \<Rightarrow> string \<Rightarrow> string \<Rightarrow> string \<Rightarrow> string
       \<Rightarrow> InternalDataGroupMap"
  httpRedirectIRule :: "int \<Rightarrow> string \<Rightarrow> string \<Rightarrow> string"
  httpRedirectIRuleNoHost :: "int \<Rightarrow> string"
  getTLSIRule :: "string \<Rightarrow> string"
  poolMembersFor :: "string \<Rightarrow> Pool \<Rightarrow> string list"

text \<open>
  Modelled from the spec: the string constants of types.go, which is not among the
  sources. The termination modes are \<open>edge\<close>, \<open>reencrypt\<close> and \<open>passthrough\<close>, the
  HTTP-traffic policies \<open>allow\<close>, \<open>none\<close> and \<open>redirect\<close>, the reference kinds are
  declared in resourceConfig.go; the route API spells the insecure policies \<open>None\<close>,
  \<open>Allow\<close> and \<open>Redirect\<close>.
\<close>

definition TLSEdge :: string where "TLSEdge = ''edge''"
definition TLSReencrypt :: string where "TLSReencrypt = ''reencrypt''"
definition TLSPassthrough :: string where "TLSPassthrough = ''passthrough''"
definition TLSAllowInsecure :: string where "TLSAllowInsecure = ''allow''"
definition TLSNoInsecure :: string where "TLSNoInsecure = ''none''"
definition TLSRedirectInsecure :: string where "TLSRedirectInsecure = ''redirect''"
definition InsecureEdgeTerminationPolicyNone :: string where "InsecureEdgeTerminationPolicyNone = ''None''"
definition InsecureEdgeTerminationPolicyAllow :: string where "InsecureEdgeTerminationPolicyAllow = ''Allow''"
definition InsecureEdgeTerminationPolicyRedirect :: string where
  "InsecureEdgeTerminationPolicyRedirect = ''Redirect''"
definition BIGIP :: string where "BIGIP = ''bigip''"
definition SecretRef :: string where "SecretRef = ''secret''"
definition CertificateRef :: string where "CertificateRef = ''certificate''"
definition HTTP :: string where "HTTP = ''http''"
definition RouteKind :: string where "RouteKind = ''Route''"
definition VirtualServerKind :: string where "VirtualServerKind = ''VirtualServer''"
definition PolicyControlForward :: string where "PolicyControlForward = ''forward''"
definition CustomProfileClient :: string where "CustomProfileClient = ''clientside''"
definition CustomProfileServer :: string where "CustomProfileServer = ''serverside''"
definition DEFAULT_HTTP_PORT :: int where "DEFAULT_HTTP_PORT = 80"
definition DEFAULT_HTTPS_PORT :: int where "DEFAULT_HTTPS_PORT = 443"
definition DEFAULT_SNAT :: string where "DEFAULT_SNAT = ''auto''"


section \<open>Extended specification: effective spec and operational delta\<close>

text \<open>
  \<open>ResourceStore.getExtendedRouteSpec\<close> (resourceConfig.go). The condition
  \<open>*extdSpec.override && extdSpec.local != nil\<close> dereferences \<open>override\<close> first: a nil
  pointer panics there, also when \<open>local\<close> is nil.
\<close>

definition getExtendedRouteSpec ::
  "ResourceStore \<Rightarrow> string \<Rightarrow> fault + ExtendedRouteGroupSpec option" where
  "getExtendedRouteSpec rs routeGroup =
     (case map_of (extdSpecMap rs) routeGroup of
        None \<Rightarrow> Inr None
      | Some extdSpec \<Rightarrow>
          (case override extdSpec of
             None \<Rightarrow> Inl NilDereference
           | Some flag \<Rightarrow>
               if flag \<and> local_eps extdSpec \<noteq> None then Inr (local_eps extdSpec)
               else Inr (global_eps extdSpec)))"

text \<open>
  \<open>getOperationalExtendedConfigMapSpecs\<close> (nativeResourceWorker.go), its three loops
  in turn. \<open>reflect.DeepEqual\<close> on two \<open>*extendedParsedSpec\<close> compares the structs
  field by field, which is equality of the records. \<open>spec.global.VServerName\<close> and
  \<open>spec.global.Meta\<close> dereference \<open>global\<close>: a nil pointer there is a panic.
\<close>

fun cachedLoop ::
  "extendedSpecMap \<Rightarrow> extendedSpecMap
     \<Rightarrow> string list \<times> string list \<times> string list \<times> (string \<rightharpoonup> bool)
     \<Rightarrow> fault + (string list \<times> string list \<times> string list \<times> (string \<rightharpoonup> bool))" where
  "cachedLoop newMap [] acc = Inr acc"
| "cachedLoop newMap ((routeGroupKey, spec) # rest) (deletedSpecs, modifiedSpecs, updatedSpecs, updateMap) =
     (case map_of newMap routeGroupKey of
        None \<Rightarrow>
          cachedLoop newMap rest (deletedSpecs @ [routeGroupKey], modifiedSpecs, updatedSpecs, updateMap)
      | Some newSpec \<Rightarrow>
          if spec \<noteq> newSpec then
            (case global_eps spec of
               None \<Rightarrow> Inl NilDereference
             | Some g \<Rightarrow>
                 (case global_eps newSpec of
                    None \<Rightarrow> Inl NilDereference
                  | Some g' \<Rightarrow>
                      if VServerName g \<noteq> VServerName g' \<or> override spec \<noteq> override newSpec
                         \<or> partition_eps spec \<noteq> partition_eps newSpec
                      then cachedLoop newMap rest
                             (deletedSpecs, modifiedSpecs @ [routeGroupKey], updatedSpecs, updateMap)
                      else cachedLoop newMap rest
                             (deletedSpecs, modifiedSpecs, updatedSpecs @ [routeGroupKey],
                              updateMap(routeGroupKey \<mapsto> True))))
          else cachedLoop newMap rest (deletedSpecs, modifiedSpecs, updatedSpecs, updateMap))"

fun cipherLoop ::
  "extendedSpecMap \<Rightarrow> (string \<rightharpoonup> bool) \<Rightarrow> string list \<Rightarrow> fault + string list" where
  "cipherLoop [] updateMap updatedSpecs = Inr updatedSpecs"
| "cipherLoop ((routeGroupKey, spec) # rest) updateMap updatedSpecs =
     (case global_eps spec of
        None \<Rightarrow> Inl NilDereference
      | Some g \<Rightarrow>
          if DependsOnTLSCipher g \<and> updateMap routeGroupKey = None
          then cipherLoop rest updateMap (updatedSpecs @ [routeGroupKey])
          else cipherLoop rest updateMap updatedSpecs)"

definition createdLoop :: "extendedSpecMap \<Rightarrow> extendedSpecMap \<Rightarrow> string list" where
  "createdLoop cachedMap newMap =
     filter (\<lambda>routeGroupKey. map_of cachedMap routeGroupKey = None) (map fst newMap)"

definition getOperationalExtendedConfigMapSpecs ::
  "extendedSpecMap \<Rightarrow> extendedSpecMap \<Rightarrow> bool
     \<Rightarrow> fault + (string list \<times> string list \<times> string list \<times> string list)" where
  "getOperationalExtendedConfigMapSpecs cachedMap newMap isDelete =
     (if isDelete then Inr (map fst newMap, [], [], [])
      else
        (case cachedLoop newMap cachedMap ([], [], [], Map.empty) of
           Inl f \<Rightarrow> Inl f
         | Inr (deletedSpecs, modifiedSpecs, updatedSpecs, updateMap) \<Rightarrow>
             (case cipherLoop cachedMap updateMap updatedSpecs of
                Inl f \<Rightarrow> Inl f
              | Inr updatedSpecs' \<Rightarrow>
                  Inr (deletedSpecs, modifiedSpecs, updatedSpecs', createdLoop cachedMap newMap))))"

text \<open>
  The comparison that sends a key to \<open>modifiedSpecs\<close>: the virtual-server name of the
  global spec, the override flag or the partition differs.
\<close>

definition identityDiffers :: "extendedParsedSpec \<Rightarrow> extendedParsedSpec \<Rightarrow> bool" where
  "identityDiffers spec newSpec =
     (map_option VServerName (global_eps spec) \<noteq> map_option VServerName (global_eps newSpec)
      \<or> override spec \<noteq> override newSpec
      \<or> partition_eps spec \<noteq> partition_eps newSpec)"

definition cipherDependent :: "extendedParsedSpec \<Rightarrow> bool" where
  "cipherDependent spec = (case global_eps spec of None \<Rightarrow> False | Some g \<Rightarrow> DependsOnTLSCipher g)"

text \<open>
  How an entry of the cached map stands to the new map: absent there, present with a
  different spec and a different identity, present with a different spec and the same
  identity.
\<close>

definition specDeleted :: "extendedSpecMap \<Rightarrow> string \<times> extendedParsedSpec \<Rightarrow> bool" where
  "specDeleted newMap kv = (map_of newMap (fst kv) = None)"

definition specModified :: "extendedSpecMap \<Rightarrow> string \<times> extendedParsedSpec \<Rightarrow> bool" where
  "specModified newMap kv =
     (case map_of newMap (fst kv) of
        None \<Rightarrow> False
      | Some newSpec \<Rightarrow> snd kv \<noteq> newSpec \<and> identityDiffers (snd kv) newSpec)"

definition specUpdated :: "extendedSpecMap \<Rightarrow> string \<times> extendedParsedSpec \<Rightarrow> bool" where
  "specUpdated newMap kv =
     (case map_of newMap (fst kv) of
        None \<Rightarrow> False
      | Some newSpec \<Rightarrow> snd kv \<noteq> newSpec \<and> \<not> identityDiffers (snd kv) newSpec)"

definition allGlobal :: "extendedSpecMap \<Rightarrow> bool" where
  "allGlobal m = list_all (\<lambda>kv. global_eps (snd kv) \<noteq> None) m"


section \<open>Route ordering and host-path claims (nativeResourceWorker.go)\<close>

text \<open>
  The \<open>less\<close> function that \<open>getOrderedRoutes\<close> hands to \<open>sort.Slice\<close>, for the
  routes at the two indices.
\<close>

definition routeLess :: "Route \<Rightarrow> Route \<Rightarrow> bool" where
  "routeLess ri rj =
     (if Host ri = Host rj
         \<and> (length (Path_rt ri) = 0 \<or> length (Path_rt rj) = 0)
         \<and> (Path_rt ri = ''/'' \<or> Path_rt rj = ''/'')
      then CreationTimestamp ri < CreationTimestamp rj
      else Host ri < Host rj
           \<or> (Host ri = Host rj \<and> Path_rt ri = Path_rt rj
                \<and> CreationTimestamp ri < CreationTimestamp rj)
           \<or> (Host ri = Host rj \<and> Path_rt ri < Path_rt rj))"

text \<open>
  \<open>getOrderedRoutes\<close>: nil when there is no informer; the whole cache for the empty
  namespace, the routes indexed under the namespace otherwise (\<open>ByIndex\<close> on the
  namespace index, which exists in every informer the controller builds).
\<close>

definition getOrderedRoutes :: "env \<Rightarrow> string \<Rightarrow> Route list" where
  "getOrderedRoutes e namespace =
     (case routeCache e namespace of
        None \<Rightarrow> []
      | Some cache \<Rightarrow>
          (let resources = (if namespace = '''' then cache
                            else filter (\<lambda>rt. Namespace_rt rt = namespace) cache)
           in sortSlice routeLess resources))"

text \<open>The host-path key that \<open>checkValidRoute\<close> and \<open>getGroupedRoutes\<close> compute.\<close>

definition hostPathKey :: "Route \<Rightarrow> string" where
  "hostPathKey route =
     (if Path_rt route = ''/'' \<or> length (Path_rt route) = 0 then Host route @ ''/''
      else Host route @ Path_rt route)"

text \<open>
  \<open>getServicePort\<close>: the error flag and the port. When \<open>resource.GetServicePort\<close>
  fails, the port it returned is passed on with the error.
\<close>

definition getServicePort :: "env \<Rightarrow> Route \<Rightarrow> bool \<times> int" where
  "getServicePort e route =
     (if \<not> essentialInformer e (Namespace_rt route) then (True, 0)
      else
        (case TargetPort route of
           Some tp \<Rightarrow>
             if StrVal tp = '''' then (False, IntVal tp)
             else (let (port, err) = GetServicePort e (Namespace_rt route) (To route) (StrVal tp)
                   in (err, port))
         | None \<Rightarrow>
             (let (port, err) = GetServicePort e (Namespace_rt route) (To route) ''''
              in (err, port))))"

text \<open>
  \<open>checkValidRoute\<close>. \<open>routeVerdict\<close> is its decision: \<open>Valid\<close> for \<open>true\<close>,
  \<open>Invalid reason\<close> for \<open>false\<close> with the reason of the admit status it starts. The
  BIG-IP branch reads \<open>route.Spec.TLS.Termination\<close> without testing \<open>Spec.TLS\<close> for
  nil, which panics on a route without TLS.
\<close>

datatype verdict = Valid | Invalid string

definition emptyTLS :: TLS where
  "emptyTLS = \<lparr>ClientSSL = '''', ServerSSL = '''', Reference = ''''\<rparr>"

definition routeVerdict ::
  "env \<Rightarrow> (string \<rightharpoonup> int) \<Rightarrow> Route \<Rightarrow> ExtendedRouteGroupSpec option \<Rightarrow> fault + verdict" where
  "routeVerdict e hostPathMap route extdSpec =
     (let key = hostPathKey route;
          claimed = (case hostPathMap key of
                       Some processedRouteTimestamp \<Rightarrow>
                         processedRouteTimestamp < CreationTimestamp route
                     | None \<Rightarrow> False);
          serviceCheck = (if fst (getServicePort e route) then Inr (Invalid ''ServiceNotFound'')
                          else Inr Valid);
          certificateCheck = (\<lambda>u::unit.
             case TLS_rt route of
               Some t \<Rightarrow>
                 if Termination t \<noteq> TLSPassthrough
                    \<and> \<not> checkCertificateHost e (Host route) (Certificate_rt t) (Key_rt t)
                 then Inr (Invalid ''ExtendedValidationFailed'')
                 else serviceCheck
             | None \<Rightarrow> serviceCheck)
      in
      if claimed then Inr (Invalid ''HostAlreadyClaimed'')
      else
        (case extdSpec of
           None \<Rightarrow> certificateCheck ()
         | Some spec \<Rightarrow>
             if TLS_spec spec \<noteq> emptyTLS \<and> Reference (TLS_spec spec) = BIGIP then
               (case TLS_rt route of
                  None \<Rightarrow> Inl NilDereference
                | Some t \<Rightarrow>
                    if Termination t \<noteq> TLSPassthrough then
                      (if ClientSSL (TLS_spec spec) = '''' then Inr (Invalid ''ExtendedValidationFailed'')
                       else if ServerSSL (TLS_spec spec) = '''' \<and> Termination t = TLSReencrypt
                       then Inr (Invalid ''ExtendedValidationFailed'')
                       else serviceCheck)
                    else certificateCheck ())
             else certificateCheck ()))"

definition rscKey :: "Route \<Rightarrow> string" where
  "rscKey route = Namespace_rt route @ ''/'' @ Name_rt route"

definition checkValidRoute ::
  "env \<Rightarrow> Controller \<Rightarrow> Route \<Rightarrow> ExtendedRouteGroupSpec option \<Rightarrow> fault + (bool \<times> Controller)" where
  "checkValidRoute e ctlr route extdSpec =
     (case routeVerdict e (processedHostPathMap ctlr) route extdSpec of
        Inl f \<Rightarrow> Inl f
      | Inr Valid \<Rightarrow> Inr (True, ctlr)
      | Inr (Invalid reason) \<Rightarrow>
          Inr (False, ctlr\<lparr>admitStatus := admitStatus ctlr @ [(rscKey route, reason)]\<rparr>))"

text \<open>
  \<open>updateHostPathMap\<close>: every other key that holds this timestamp is deleted, then the
  key is set.
\<close>

definition updateHostPathMap :: "(string \<rightharpoonup> int) \<Rightarrow> int \<Rightarrow> string \<Rightarrow> (string \<rightharpoonup> int)" where
  "updateHostPathMap hostPathMap timestamp key =
     (\<lambda>hostPath. if hostPathMap hostPath = Some timestamp \<and> hostPath \<noteq> key then None
                 else hostPathMap hostPath)(key \<mapsto> timestamp)"

text \<open>
  \<open>getGroupedRoutes\<close>: the inner loop over the ordered routes of one namespace, and the
  outer loop over the namespaces of the group. The telemetry counter is not modelled.
\<close>

fun routesLoop ::
  "env \<Rightarrow> ExtendedRouteGroupSpec option \<Rightarrow> Route list \<Rightarrow> Controller \<times> Route list
     \<Rightarrow> fault + (Controller \<times> Route list)" where
  "routesLoop e extdSpec [] acc = Inr acc"
| "routesLoop e extdSpec (route # rest) (ctlr, assocRoutes) =
     (case checkValidRoute e ctlr route extdSpec of
        Inl f \<Rightarrow> Inl f
      | Inr (ok, ctlr') \<Rightarrow>
          if ok then
            routesLoop e extdSpec rest
              (ctlr'\<lparr>processedHostPathMap :=
                 updateHostPathMap (processedHostPathMap ctlr') (CreationTimestamp route)
                   (hostPathKey route)\<rparr>,
               assocRoutes @ [route])
          else routesLoop e extdSpec rest (ctlr', assocRoutes))"

fun namespacesLoop ::
  "env \<Rightarrow> ExtendedRouteGroupSpec option \<Rightarrow> string list \<Rightarrow> Controller \<times> Route list
     \<Rightarrow> fault + (Controller \<times> Route list)" where
  "namespacesLoop e extdSpec [] acc = Inr acc"
| "namespacesLoop e extdSpec (namespace # rest) acc =
     (case routesLoop e extdSpec (getOrderedRoutes e namespace) acc of
        Inl f \<Rightarrow> Inl f
      | Inr acc' \<Rightarrow> namespacesLoop e extdSpec rest acc')"

definition getGroupedRoutes ::
  "env \<Rightarrow> Controller \<Rightarrow> string \<Rightarrow> ExtendedRouteGroupSpec option \<Rightarrow> fault + (Controller \<times> Route list)" where
  "getGroupedRoutes e ctlr routeGroup extdSpec =
     (case map_of (extdSpecMap (resources ctlr)) routeGroup of
        None \<Rightarrow> Inl NilDereference
      | Some entry \<Rightarrow> namespacesLoop e extdSpec (elems (namespaces entry)) (ctlr, []))"

text \<open>
  The path with the empty path counted as the root, and the order that the comparison
  of \<open>getOrderedRoutes\<close> induces on routes whose paths are empty or begin with a slash.
\<close>

definition normPath :: "Route \<Rightarrow> string" where
  "normPath r = (if Path_rt r = '''' then ''/'' else Path_rt r)"

definition wellFormedPath :: "Route \<Rightarrow> bool" where
  "wellFormedPath r = (Path_rt r = '''' \<or> take 1 (Path_rt r) = ''/'')"

definition routeOrdered :: "Route \<Rightarrow> Route \<Rightarrow> bool" where
  "routeOrdered a b =
     (Host a < Host b
      \<or> (Host a = Host b
          \<and> (normPath a < normPath b
              \<or> (normPath a = normPath b \<and> CreationTimestamp a \<le> CreationTimestamp b))))"


section \<open>Rule synthesis and merging\<close>

text \<open>
  \<open>sortrules\<close>, the closure of \<open>prepareRouteLTMRules\<close>: the rules of the map are
  appended to the list, then every rule of the list is numbered from \<open>ordinal\<close> on.
  A rule map is a Go map from URI to rule, here a list of pairs.
\<close>

definition sortrules :: "(string \<times> Rule) list \<Rightarrow> Rule list \<Rightarrow> int \<Rightarrow> Rule list" where
  "sortrules r rls ordinal =
     map (\<lambda>(i, v). v\<lparr>Ordinal := ordinal + int i\<rparr>) (enumerate 0 (rls @ map snd r))"

text \<open>
  \<open>prepareRouteLTMRules\<close> (nativeResourceWorker.go); \<open>None\<close> is the nil it returns
  after an error. The two goroutines work on separate lists and are joined before the
  lists are read, so they are run one after the other here.
\<close>

definition prepareRouteLTMRules :: "env \<Rightarrow> Route \<Rightarrow> string \<Rightarrow> string slice \<Rightarrow> Rule list option" where
  "prepareRouteLTMRules e route poolName allowSourceRange =
     (let uri = Host route @ Path_rt route;
          path = Path_rt route;
          ruleName = formatVirtualServerRuleName e (Host route) (Namespace_rt route) path poolName
      in
      case createRule e uri poolName ruleName allowSourceRange of
        None \<Rightarrow> None
      | Some rl \<Rightarrow>
          (case (case Annotations route (URLRewriteAnnotation e) of
                   None \<Rightarrow> Some rl
                 | Some rewritePath \<Rightarrow>
                     (case getRewriteActions e path rewritePath (length (Actions rl)) of
                        None \<Rightarrow> None
                      | Some rewriteActions \<Rightarrow> Some (rl\<lparr>Actions := Actions rl @ rewriteActions\<rparr>))) of
             None \<Rightarrow> None
           | Some rl' \<Rightarrow>
               (let wildcards = (if HasPrefix uri ''*.'' then [(uri, rl')] else []);
                    rlMap = (if HasPrefix uri ''*.'' then [] else [(uri, rl')]);
                    rls = sortrules rlMap [] 0;
                    w = sortrules wildcards [] (int (length rlMap))
                in Some (sortSlice (RulesLess e) (rls @ w)))))"

text \<open>
  \<open>Policy.mergeRules\<close>. The map of existing rules is keyed by name, so a later rule
  of that name hides an earlier one; the first host condition of the existing rule gets
  the first value of the first host condition of the new rule (\<open>newCond.Values[0]\<close>, a
  panic on an empty value list). The conditions are pointers: the rule of the policy
  changes. The result is the policy's rules and the rules that are new.
\<close>

fun firstIndex :: "('a \<Rightarrow> bool) \<Rightarrow> 'a list \<Rightarrow> nat option" where
  "firstIndex P [] = None"
| "firstIndex P (x # xs) = (if P x then Some 0 else map_option Suc (firstIndex P xs))"

definition lastIndex :: "('a \<Rightarrow> bool) \<Rightarrow> 'a list \<Rightarrow> nat option" where
  "lastIndex P xs = map_option (\<lambda>i. length xs - 1 - i) (firstIndex P (rev xs))"

definition mergeHost :: "Rule \<Rightarrow> Rule \<Rightarrow> fault + Rule" where
  "mergeHost existingRule newRule =
     (case firstIndex HTTPHost (Conditions existingRule) of
        None \<Rightarrow> Inr existingRule
      | Some ci \<Rightarrow>
          (case List.find HTTPHost (Conditions newRule) of
             None \<Rightarrow> Inr existingRule
           | Some newCond \<Rightarrow>
               (case Values newCond of
                  [] \<Rightarrow> Inl IndexOutOfRange
                | v # vs \<Rightarrow>
                    Inr (existingRule\<lparr>Conditions :=
                           (Conditions existingRule)
                             [ci := (Conditions existingRule ! ci)
                                      \<lparr>Values := Values (Conditions existingRule ! ci) @ [v]\<rparr>]\<rparr>))))"

fun mergeRules :: "Rule list \<Rightarrow> Rule list \<Rightarrow> Rule list \<Rightarrow> fault + (Rule list \<times> Rule list)" where
  "mergeRules existing [] newRules = Inr (existing, newRules)"
| "mergeRules existing (newRule # rls) newRules =
     (case lastIndex (\<lambda>rule. Name_rule rule = Name_rule newRule) existing of
        None \<Rightarrow> mergeRules existing rls (newRules @ [newRule])
      | Some i \<Rightarrow>
          (case mergeHost (existing ! i) newRule of
             Inl f \<Rightarrow> Inl f
           | Inr merged \<Rightarrow> mergeRules (existing[i := merged]) rls newRules))"

text \<open>\<open>Policy.AddRules\<close>.\<close>

definition AddRules :: "env \<Rightarrow> Policy \<Rightarrow> Rule list \<Rightarrow> fault + Policy" where
  "AddRules e pol rls =
     (case mergeRules (Rules pol) rls [] of
        Inl f \<Rightarrow> Inl f
      | Inr (existing, newRules) \<Rightarrow>
          (let tcpReqExist = list_ex (\<lambda>req. req = ''tcp'') (Requires pol);
               requiresTcp = list_ex (\<lambda>x. list_ex Tcp (Conditions x)) newRules;
               requires = (if \<not> tcpReqExist \<and> requiresTcp then Requires pol @ [''tcp'']
                           else Requires pol)
           in Inr (pol\<lparr>Requires := requires,
                        Rules := sortSlice (RulesLess e) (existing @ newRules)\<rparr>)))"

text \<open>
  Modelled from the spec: \<open>createPolicy\<close> is not among the sources. A new forwarding
  policy of the given name and partition (spec 4.4), into which the rules are merged
  by \<open>AddRules\<close>.
\<close>

definition createPolicy :: "env \<Rightarrow> Rule list \<Rightarrow> string \<Rightarrow> string \<Rightarrow> fault + Policy" where
  "createPolicy e rls policyName part =
     AddRules e \<lparr>Name_pol = policyName, Partition_pol = part, Controls = [PolicyControlForward],
                 Requires = [''http''], Rules = []\<rparr> rls"


section \<open>Building a resource configuration (resourceConfig.go)\<close>

subsection \<open>Names\<close>

definition formatPoolName :: "string \<Rightarrow> string \<Rightarrow> int \<Rightarrow> string \<Rightarrow> string" where
  "formatPoolName namespace svc port nodeMemberLabel =
     (let servicePort = Sprint port;
          poolName = svc @ ''_'' @ servicePort @ ''_'' @ namespace;
          poolName' = (if nodeMemberLabel \<noteq> ''''
                       then poolName @ ''_'' @ ReplaceAll1 nodeMemberLabel (CHR ''='') (CHR ''_'')
                       else poolName)
      in AS3NameFormatter poolName')"

definition formatPolicyName :: "string \<Rightarrow> string \<Rightarrow> string \<Rightarrow> string" where
  "formatPolicyName hostName hostGroup nm =
     (let host = (if hostGroup \<noteq> '''' then hostGroup else hostName);
          host' = (if HasPrefix host ''*'' then ''wildcard'' @ drop 1 host else host)
      in AS3NameFormatter (nm @ ''_'' @ host' @ ''_'' @ ''policy''))"

definition formatCustomVirtualServerName :: "string \<Rightarrow> int \<Rightarrow> string" where
  "formatCustomVirtualServerName nm port = AS3NameFormatter nm @ ''_'' @ Sprint port"

definition frameRouteVSName :: "string \<Rightarrow> string \<Rightarrow> portStruct \<Rightarrow> string" where
  "frameRouteVSName vServerName vServerAddr ps =
     (if vServerName \<noteq> '''' then formatCustomVirtualServerName vServerName (port_ps ps)
      else formatCustomVirtualServerName (''routes_'' @ vServerAddr) (port_ps ps))"

definition getRSCfgResName :: "string \<Rightarrow> string \<Rightarrow> string" where
  "getRSCfgResName rsVSName resName = rsVSName @ ''_'' @ resName"

definition JoinBigipPath :: "string \<Rightarrow> string \<Rightarrow> string" where
  "JoinBigipPath part objName =
     (if objName = '''' then '''' else if part = '''' then objName
      else ''/'' @ part @ ''/'' @ objName)"

definition HttpRedirectIRuleName :: string where "HttpRedirectIRuleName = ''http_redirect_irule''"
definition HttpRedirectNoHostIRuleName :: string where
  "HttpRedirectNoHostIRuleName = ''http_redirect_irule_nohost''"
definition HttpsRedirectDgName :: string where "HttpsRedirectDgName = ''https_redirect_dg''"
definition TLSIRuleName :: string where "TLSIRuleName = ''tls_irule''"
definition ReencryptHostsDgName :: string where "ReencryptHostsDgName = ''ssl_reencrypt_servername_dg''"
definition EdgeHostsDgName :: string where "EdgeHostsDgName = ''ssl_edge_servername_dg''"
definition ReencryptServerSslDgName :: string where
  "ReencryptServerSslDgName = ''ssl_reencrypt_serverssl_dg''"
definition EdgeServerSslDgName :: string where "EdgeServerSslDgName = ''ssl_edge_serverssl_dg''"

subsection \<open>Routes and ports\<close>

definition isSecureRoute :: "Route \<Rightarrow> bool" where
  "isSecureRoute route = (TLS_rt route \<noteq> None)"

definition isPassthroughRoute :: "Route \<Rightarrow> bool" where
  "isPassthroughRoute route =
     (case TLS_rt route of Some t \<Rightarrow> Termination t = TLSPassthrough | None \<Rightarrow> False)"

text \<open>
  Modelled from the spec: \<open>GetRouteBackends\<close> and \<open>IsRouteABDeployment\<close> are not among
  the sources. A route targets its \<open>to\<close> service and its alternate backends (spec 4.3,
  "for each backend service it targets"); it is an A/B deployment when it has alternate
  backends.
\<close>

definition GetRouteBackends :: "Route \<Rightarrow> string list" where
  "GetRouteBackends route = To route # AlternateBackends route"

definition IsRouteABDeployment :: "Route \<Rightarrow> bool" where
  "IsRouteABDeployment route = (AlternateBackends route \<noteq> [])"

fun doRoutesHandleHTTP :: "Route list \<Rightarrow> bool" where
  "doRoutesHandleHTTP [] = False"
| "doRoutesHandleHTTP (route # routes) =
     (case TLS_rt route of
        None \<Rightarrow> True
      | Some t \<Rightarrow>
          if InsecureEdgeTerminationPolicy t = InsecureEdgeTerminationPolicyAllow
             \<or> InsecureEdgeTerminationPolicy t = InsecureEdgeTerminationPolicyRedirect
          then True
          else doRoutesHandleHTTP routes)"

definition getBasicVirtualPorts :: "portStruct list" where
  "getBasicVirtualPorts =
     [\<lparr>protocol_ps = ''http'', port_ps = DEFAULT_HTTP_PORT\<rparr>,
      \<lparr>protocol_ps = ''https'', port_ps = DEFAULT_HTTPS_PORT\<rparr>]"

definition getVirtualPortsForRoutes :: "Route list \<Rightarrow> portStruct list" where
  "getVirtualPortsForRoutes routes =
     (if list_ex isSecureRoute routes then getBasicVirtualPorts
      else [\<lparr>protocol_ps = ''http'', port_ps = DEFAULT_HTTP_PORT\<rparr>])"

subsection \<open>Profiles, iRules, data groups\<close>

text \<open>
  \<open>strings.TrimSpace\<close> on the ASCII white space, and \<open>strings.Split\<close> on a one-byte
  separator, for \<open>ConvertStringToProfileRef\<close>.
\<close>

definition isSpace :: "char \<Rightarrow> bool" where
  "isSpace c = (c \<in> set [CHR '' '', CHR 0x09, CHR 0x0A, CHR 0x0B, CHR 0x0C, CHR 0x0D])"

definition TrimSpace :: "string \<Rightarrow> string" where
  "TrimSpace s = rev (dropWhile isSpace (rev (dropWhile isSpace s)))"

fun Split1 :: "string \<Rightarrow> char \<Rightarrow> string list" where
  "Split1 [] sep = [[]]"
| "Split1 (x # xs) sep =
     (if x = sep then [] # Split1 xs sep
      else (case Split1 xs sep of w # ws \<Rightarrow> (x # w) # ws | [] \<Rightarrow> [[x]]))"

definition ConvertStringToProfileRef :: "env \<Rightarrow> string \<Rightarrow> string \<Rightarrow> string \<Rightarrow> ProfileRef" where
  "ConvertStringToProfileRef e profileName ctx ns =
     (let profName = TrimSpace (TrimPrefix profileName ''/'');
          parts = Split1 profName (CHR ''/'');
          profRef = \<lparr>Name_prof = '''', Partition_prof = '''', Context = ctx, Namespace_prof = ns,
                     BigIPProfile = True\<rparr>
      in if length parts = 2 then profRef\<lparr>Partition_prof := parts ! 0, Name_prof := parts ! 1\<rparr>
         else if length parts = 1
         then profRef\<lparr>Partition_prof := DEFAULT_PARTITION e, Name_prof := profileName\<rparr>
         else profRef)"

definition AddOrUpdateProfile :: "Virtual \<Rightarrow> ProfileRef \<Rightarrow> Virtual" where
  "AddOrUpdateProfile v prof =
     (let ps = Profiles v;
          profCt = length ps;
          i = sortSearch profCt
                (\<lambda>i. Partition_prof (ps ! i) > Partition_prof prof
                      \<or> (Partition_prof (ps ! i) = Partition_prof prof
                          \<and> Name_prof (ps ! i) \<ge> Name_prof prof))
      in if i < profCt \<and> Partition_prof (ps ! i) = Partition_prof prof
            \<and> Name_prof (ps ! i) = Name_prof prof
         then (if Context (ps ! i) = Context prof then v else v\<lparr>Profiles := ps[i := prof]\<rparr>)
         else v\<lparr>Profiles := take i ps @ [prof] @ drop i ps\<rparr>)"

definition AddIRule :: "Virtual \<Rightarrow> string \<Rightarrow> Virtual" where
  "AddIRule v ruleName =
     (if ruleName \<in> set (elems (IRules_vs v)) then v
      else v\<lparr>IRules_vs := Some (elems (IRules_vs v) @ [ruleName])\<rparr>)"

definition addIRule :: "ResourceConfig \<Rightarrow> string \<Rightarrow> string \<Rightarrow> string \<Rightarrow> ResourceConfig" where
  "addIRule rsCfg nm part rule =
     (let key = \<lparr>Name_ref = nm, Partition_ref = part\<rparr>
      in case IRulesMap rsCfg key of
           Some r \<Rightarrow> rsCfg
         | None \<Rightarrow>
             rsCfg\<lparr>IRulesMap := (IRulesMap rsCfg)
                      (key \<mapsto> \<lparr>Name_irule = nm, Partition_irule = part, Code_irule = rule\<rparr>)\<rparr>)"

definition addInternalDataGroup :: "ResourceConfig \<Rightarrow> string \<Rightarrow> string \<Rightarrow> ResourceConfig" where
  "addInternalDataGroup rsCfg nm part =
     (let key = \<lparr>Name_ref = nm, Partition_ref = part\<rparr>
      in case IntDgMap rsCfg key of
           Some g \<Rightarrow> rsCfg
         | None \<Rightarrow> rsCfg\<lparr>IntDgMap := (IntDgMap rsCfg)(key \<mapsto> Map.empty)\<rparr>)"

definition handleDataGroupIRules :: "env \<Rightarrow> ResourceConfig \<Rightarrow> string \<Rightarrow> string \<Rightarrow> ResourceConfig" where
  "handleDataGroupIRules e rsCfg vsHost tlsTerminationType =
     (if tlsTerminationType \<noteq> '''' then
        (let vsName = Name_vs (Virtual rsCfg);
             tlsIRuleName = JoinBigipPath (DEFAULT_PARTITION e) (getRSCfgResName vsName TLSIRuleName);
             withRule = (\<lambda>hostsDg sslDg.
                addInternalDataGroup
                  (addInternalDataGroup
                     (addIRule rsCfg (getRSCfgResName vsName TLSIRuleName) (DEFAULT_PARTITION e)
                        (getTLSIRule e vsName))
                     (getRSCfgResName vsName hostsDg) (DEFAULT_PARTITION e))
                  (getRSCfgResName vsName sslDg) (DEFAULT_PARTITION e));
             rsCfg' = (if tlsTerminationType = TLSEdge then withRule EdgeHostsDgName EdgeServerSslDgName
                       else if tlsTerminationType = TLSReencrypt
                       then withRule ReencryptHostsDgName ReencryptServerSslDgName
                       else rsCfg)
         in if vsHost \<noteq> '''' then rsCfg'\<lparr>Virtual := AddIRule (Virtual rsCfg') tlsIRuleName\<rparr>
            else rsCfg')
      else rsCfg)"

subsection \<open>TLS handling\<close>

text \<open>
  The profile part of \<open>handleTLS\<close>, the \<open>switch\<close> on the reference type. The result
  is false where the source returns false from \<open>handleTLS\<close>.
\<close>

definition applyProfiles ::
  "ResourceConfig \<Rightarrow> bool \<times> CustomProfiles \<times> ProfileRef list \<Rightarrow> bool \<times> ResourceConfig" where
  "applyProfiles rsCfg r =
     (case r of (err, cps, prs) \<Rightarrow>
        (err, rsCfg\<lparr>customProfiles := cps, Virtual := (Virtual rsCfg)\<lparr>Profiles := prs\<rparr>\<rparr>))"

definition secretProfile ::
  "env \<Rightarrow> (Secret \<Rightarrow> string \<Rightarrow> CustomProfiles \<Rightarrow> ProfileRef list \<Rightarrow> bool \<times> CustomProfiles \<times> ProfileRef list)
     \<Rightarrow> string \<Rightarrow> string \<Rightarrow> string \<Rightarrow> (string \<rightharpoonup> Secret) \<Rightarrow> ResourceConfig
     \<Rightarrow> bool \<times> ResourceConfig \<times> (string \<rightharpoonup> Secret)" where
  "secretProfile e create secretName ctx ns sslContext rsCfg =
     (if secretName = '''' then (True, rsCfg, sslContext)
      else
        (case sslContext secretName of
           Some secret \<Rightarrow>
             (let (err, rsCfg') = applyProfiles rsCfg
                    (create secret ctx (customProfiles rsCfg) (Profiles (Virtual rsCfg)))
              in (\<not> err, rsCfg', sslContext))
         | None \<Rightarrow>
             (case getSecret e ns secretName of
                None \<Rightarrow> (False, rsCfg, sslContext)
              | Some secret \<Rightarrow>
                  (let (err, rsCfg') = applyProfiles rsCfg
                         (create secret ctx (customProfiles rsCfg) (Profiles (Virtual rsCfg)))
                   in (\<not> err, rsCfg', sslContext(secretName \<mapsto> secret))))))"

definition tlsProfiles ::
  "env \<Rightarrow> (string \<rightharpoonup> Secret) \<Rightarrow> ResourceConfig \<Rightarrow> TLSContext
     \<Rightarrow> bool \<times> ResourceConfig \<times> (string \<rightharpoonup> Secret)" where
  "tlsProfiles e sslContext rsCfg tc =
     (let cSSL = clientSSL (bigIPSSLProfiles tc);
          sSSL = serverSSL (bigIPSSLProfiles tc);
          bp = bigIPSSLProfiles tc
      in
      if referenceType tc = BIGIP then
        (let v1 = (if cSSL \<noteq> ''''
                   then AddOrUpdateProfile (Virtual rsCfg)
                          (ConvertStringToProfileRef e cSSL CustomProfileClient (namespace_tc tc))
                   else Virtual rsCfg);
             v2 = (if sSSL \<noteq> ''''
                   then AddOrUpdateProfile v1
                          (ConvertStringToProfileRef e sSSL CustomProfileServer (namespace_tc tc))
                   else v1)
         in (True, rsCfg\<lparr>Virtual := v2\<rparr>, sslContext))
      else if referenceType tc = SecretRef then
        (let (ok1, rsCfg1, ctx1) =
               secretProfile e (createSecretClientSSLProfile e) cSSL CustomProfileClient
                 (namespace_tc tc) sslContext rsCfg
         in if \<not> ok1 then (False, rsCfg1, ctx1)
            else secretProfile e (createSecretServerSSLProfile e) sSSL CustomProfileServer
                   (namespace_tc tc) ctx1 rsCfg1)
      else if referenceType tc = CertificateRef then
        (let (err1, rsCfg1) =
               (if key_bp bp \<noteq> '''' \<and> certificate_bp bp \<noteq> ''''
                then applyProfiles rsCfg
                       (createClientSSLProfile e (key_bp bp) (certificate_bp bp) (name_tc tc)
                          (namespace_tc tc) CustomProfileClient (customProfiles rsCfg)
                          (Profiles (Virtual rsCfg)))
                else (False, rsCfg))
         in if err1 then (False, rsCfg1, sslContext)
            else if destinationCACertificate_bp bp \<noteq> '''' then
              (let (err2, rsCfg2) = applyProfiles rsCfg1
                     (createServerSSLProfile e (destinationCACertificate_bp bp)
                        (if caCertificate_bp bp \<noteq> '''' then caCertificate_bp bp else '''')
                        (name_tc tc) (namespace_tc tc) CustomProfileServer
                        (customProfiles rsCfg1) (Profiles (Virtual rsCfg1)))
               in (\<not> err2, rsCfg2, sslContext))
            else (True, rsCfg1, sslContext))
      else (False, rsCfg, sslContext))"

text \<open>The loop of \<open>handleTLS\<close> over the pool-path references.\<close>

definition sslDataGroupStep ::
  "env \<Rightarrow> ResourceConfig \<Rightarrow> TLSContext \<Rightarrow> InternalDataGroupMap \<Rightarrow> poolPathRef \<Rightarrow> InternalDataGroupMap" where
  "sslDataGroupStep e rsCfg tc dgs ref =
     (let sslPath = TrimSuffix (hostname tc @ path_ppr ref) ''/''
      in if termination_tc tc = TLSEdge then
           updateDataGroup e dgs (getRSCfgResName (Name_vs (Virtual rsCfg)) EdgeServerSslDgName)
             (DEFAULT_PARTITION e) (namespace_tc tc) sslPath ''false''
         else if termination_tc tc = TLSReencrypt then
           (if serverSSL (bigIPSSLProfiles tc) \<noteq> '''' then
              updateDataGroup e dgs
                (getRSCfgResName (Name_vs (Virtual rsCfg)) ReencryptServerSslDgName)
                (DEFAULT_PARTITION e) (namespace_tc tc) sslPath
                (AS3NameFormatter (''crd_'' @ ipAddress tc @ ''_tls_client''))
            else dgs)
         else dgs)"

text \<open>
  The part of \<open>handleTLS\<close> for a virtual server that is not on the HTTPS port: the
  HTTP-traffic policy.
\<close>

definition handleHTTPTraffic :: "env \<Rightarrow> ResourceConfig \<Rightarrow> TLSContext \<Rightarrow> ResourceConfig" where
  "handleHTTPTraffic e rsCfg tc =
     (if httpTraffic tc \<noteq> '''' \<and> httpTraffic tc = TLSRedirectInsecure then
        (let vsName = Name_vs (Virtual rsCfg);
             ruleName = (if hostname tc = ''''
                         then getRSCfgResName vsName HttpRedirectNoHostIRuleName @ ''_'' @ Sprint (httpsPort tc)
                         else getRSCfgResName vsName HttpRedirectIRuleName @ ''_'' @ Sprint (httpsPort tc));
             rsCfg1 = (if hostname tc = ''''
                       then addIRule rsCfg ruleName (DEFAULT_PARTITION e)
                              (httpRedirectIRuleNoHost e (httpsPort tc))
                       else addIRule rsCfg ruleName (DEFAULT_PARTITION e)
                              (httpRedirectIRule e (httpsPort tc) vsName (DEFAULT_PARTITION e)));
             rsCfg2 = rsCfg1\<lparr>Virtual := AddIRule (Virtual rsCfg1)
                                             (JoinBigipPath (DEFAULT_PARTITION e) ruleName)\<rparr>
         in rsCfg2\<lparr>IntDgMap := updateDataGroupOfDgName e (IntDgMap rsCfg2) (poolPathRefs tc)
                                   vsName HttpsRedirectDgName (hostname tc) (namespace_tc tc)\<rparr>)
      else rsCfg)"

text \<open>
  \<open>handleTLS\<close>: the flag it returns, and the config and the secret cache as it leaves
  them (also when it returns false). \<open>rsCfg.Virtual.VirtualAddress.Port\<close> dereferences
  the address pointer.
\<close>

definition handleTLS ::
  "env \<Rightarrow> (string \<rightharpoonup> Secret) \<Rightarrow> ResourceConfig \<Rightarrow> TLSContext
     \<Rightarrow> fault + (bool \<times> ResourceConfig \<times> (string \<rightharpoonup> Secret))" where
  "handleTLS e sslContext rsCfg tc =
     (case VirtualAddress (Virtual rsCfg) of
        None \<Rightarrow> Inl NilDereference
      | Some va \<Rightarrow>
          if Port_va va = httpsPort tc then
            (if termination_tc tc = TLSPassthrough then Inr (True, rsCfg, sslContext)
             else
               (let (ok, rsCfg1, ctx1) = tlsProfiles e sslContext rsCfg tc
                in if \<not> ok then Inr (False, rsCfg1, ctx1)
                   else
                     (let rsCfg2 = rsCfg1\<lparr>IntDgMap :=
                                      foldl (sslDataGroupStep e rsCfg1 tc) (IntDgMap rsCfg1)
                                        (poolPathRefs tc)\<rparr>;
                          hostsDg = (\<lambda>dgName. rsCfg2\<lparr>IntDgMap :=
                                      updateDataGroupOfDgName e (IntDgMap rsCfg2) (poolPathRefs tc)
                                        (Name_vs (Virtual rsCfg2)) dgName (hostname tc)
                                        (namespace_tc tc)\<rparr>)
                      in if termination_tc tc = TLSReencrypt then
                           (if httpTraffic tc = TLSAllowInsecure then Inr (False, rsCfg2, ctx1)
                            else Inr (True,
                                      handleDataGroupIRules e (hostsDg ReencryptHostsDgName)
                                        (hostname tc) (termination_tc tc),
                                      ctx1))
                         else if termination_tc tc = TLSEdge then
                           Inr (True,
                                handleDataGroupIRules e (hostsDg EdgeHostsDgName)
                                  (hostname tc) (termination_tc tc),
                                ctx1)
                         else Inr (True,
                                   handleDataGroupIRules e rsCfg2 (hostname tc) (termination_tc tc),
                                   ctx1))))
          else Inr (True, handleHTTPTraffic e rsCfg tc, sslContext))"

text \<open>\<open>handleRouteTLS\<close> (resourceConfig.go).\<close>

definition handleRouteTLS ::
  "env \<Rightarrow> (string \<rightharpoonup> Secret) \<Rightarrow> ResourceConfig \<Rightarrow> Route \<Rightarrow> ExtendedRouteGroupSpec \<Rightarrow> int
     \<Rightarrow> fault + (bool \<times> ResourceConfig \<times> (string \<rightharpoonup> Secret))" where
  "handleRouteTLS e sslContext rsCfg route extdSpec servicePort =
     (case TLS_rt route of
        None \<Rightarrow> Inr (False, rsCfg, sslContext)
      | Some t \<Rightarrow>
          (let bp = \<lparr>clientSSL = '''', serverSSL = '''', key_bp = Key_rt t,
                     certificate_bp = Certificate_rt t, caCertificate_bp = CACertificate t,
                     destinationCACertificate_bp = DestinationCACertificate t\<rparr>;
               refs = map (\<lambda>pl. \<lparr>path_ppr = Path_rt route,
                                    poolName_ppr = formatPoolName (Namespace_rt route) (To route)
                                                     (ServicePort pl) ''''\<rparr>)
                        (filter (\<lambda>pl. Name_pool pl
                                        = formatPoolName (Namespace_rt route) (To route) servicePort '''')
                           (Pools rsCfg))
           in handleTLS e sslContext rsCfg
                \<lparr>name_tc = Name_rt route, namespace_tc = Namespace_rt route,
                 resourceType_tc = RouteKind, referenceType = CertificateRef,
                 hostname = Host route, httpsPort = DEFAULT_HTTPS_PORT,
                 ipAddress = VServerAddr extdSpec, termination_tc = Termination t,
                 httpTraffic = ToLower (InsecureEdgeTerminationPolicy t),
                 poolPathRefs = refs, bigIPSSLProfiles = bp\<rparr>))"


section \<open>Processing a route group (nativeResourceWorker.go)\<close>

subsection \<open>Policies of a config\<close>

definition FindPolicy :: "ResourceConfig \<Rightarrow> string \<Rightarrow> Policy option" where
  "FindPolicy rc controlType = List.find (\<lambda>pol. controlType \<in> set (Controls pol)) (Policies rc)"

definition SetPolicy :: "ResourceConfig \<Rightarrow> Policy \<Rightarrow> ResourceConfig" where
  "SetPolicy rc policy =
     (let toFind = \<lparr>Name_ref = Name_pol policy, Partition_ref = Partition_pol policy\<rparr>;
          v = (if toFind \<in> set (Policies_vs (Virtual rc)) then Virtual rc
               else (Virtual rc)\<lparr>Policies_vs := Policies_vs (Virtual rc) @ [toFind]\<rparr>);
          same = (\<lambda>pol. Name_pol pol = Name_pol policy \<and> Partition_pol pol = Partition_pol policy)
      in case firstIndex same (Policies rc) of
           Some i \<Rightarrow> rc\<lparr>Virtual := v, Policies := (Policies rc)[i := policy]\<rparr>
         | None \<Rightarrow> rc\<lparr>Virtual := v, Policies := Policies rc @ [policy]\<rparr>)"

definition AddRuleToPolicy ::
  "env \<Rightarrow> ResourceConfig \<Rightarrow> string \<Rightarrow> string \<Rightarrow> Rule list \<Rightarrow> fault + ResourceConfig" where
  "AddRuleToPolicy e rsCfg policyName part rules =
     (case FindPolicy rsCfg PolicyControlForward of
        Some policy \<Rightarrow>
          (case AddRules e policy rules of
             Inl f \<Rightarrow> Inl f
           | Inr policy' \<Rightarrow> Inr (SetPolicy rsCfg policy'))
      | None \<Rightarrow>
          (case createPolicy e rules policyName part of
             Inl f \<Rightarrow> Inl f
           | Inr plcy \<Rightarrow> Inr (SetPolicy rsCfg plcy)))"

subsection \<open>Group options, pools and monitors\<close>

definition handleRouteGroupExtendedSpec ::
  "ResourceConfig \<Rightarrow> ExtendedRouteGroupSpec \<Rightarrow> ResourceConfig" where
  "handleRouteGroupExtendedSpec rsCfg extdSpec =
     (let v = (Virtual rsCfg)
                \<lparr>SNAT_vs := (if SNAT_spec extdSpec = '''' then DEFAULT_SNAT else SNAT_spec extdSpec),
                 WAF_vs := WAF_spec extdSpec,
                 IRules_vs := IRules_spec extdSpec\<rparr>;
          monitorOf = (\<lambda>hm.
             \<lparr>Name_mon = AS3NameFormatter (Path_hm hm) @ ''_monitor'',
              Partition_mon = Partition_vs (Virtual rsCfg),
              Interval_mon = Interval_hm hm,
              Type_mon = (if Type_hm hm = '''' then ''http'' else Type_hm hm),
              Send_mon = Send_hm hm, Recv_mon = Recv_hm hm, Timeout_mon = Timeout_hm hm,
              Path_mon = Path_hm hm, InUse = False\<rparr>)
      in rsCfg\<lparr>Virtual := v,
                Monitors := Monitors rsCfg @ map monitorOf (elems (HealthMonitors extdSpec))\<rparr>)"

text \<open>
  The loop of \<open>prepareResourceConfigFromRoute\<close> over the backends of the route. The
  first monitor whose path begins with host and path of the route is marked in use and
  named in the pool; the pool is appended before the rules are made. The flag of the
  result is the error.
\<close>

fun backendsLoop ::
  "env \<Rightarrow> Route \<Rightarrow> int \<Rightarrow> string list \<Rightarrow> ResourceConfig \<Rightarrow> fault + (bool \<times> ResourceConfig)" where
  "backendsLoop e route servicePort [] rsCfg = Inr (False, rsCfg)"
| "backendsLoop e route servicePort (bs # rest) rsCfg =
     (let pool = \<lparr>Name_pool = formatPoolName (Namespace_rt route) bs servicePort '''',
                   Partition_pool = Partition_vs (Virtual rsCfg),
                   ServiceName = bs,
                   ServiceNamespace = Namespace_rt route,
                   ServicePort = servicePort,
                   NodeMemberLabel = '''',
                   Balance = (case Annotations route (F5VsBalanceAnnotation e) of
                                Some b \<Rightarrow> b | None \<Rightarrow> ''''),
                   MonitorNames = [],
                   Members = []\<rparr>;
          found = firstIndex (\<lambda>monitor. HasPrefix (Path_mon monitor) (Host route @ Path_rt route))
                    (Monitors rsCfg);
          monitors = (case found of
                        Some index \<Rightarrow> (Monitors rsCfg)[index := (Monitors rsCfg ! index)\<lparr>InUse := True\<rparr>]
                      | None \<Rightarrow> Monitors rsCfg);
          pool' = (case found of
                     Some index \<Rightarrow> pool\<lparr>MonitorNames := [Name_mon (Monitors rsCfg ! index)]\<rparr>
                   | None \<Rightarrow> pool);
          rsCfg1 = rsCfg\<lparr>Monitors := monitors, Pools := Pools rsCfg @ [pool']\<rparr>
      in
      if \<not> isPassthroughRoute route \<and> \<not> IsRouteABDeployment route then
        (case prepareRouteLTMRules e route (Name_pool pool') (AllowSourceRange_vs (Virtual rsCfg1)) of
           None \<Rightarrow> Inr (True, rsCfg1)
         | Some rules \<Rightarrow>
             (case AddRuleToPolicy e rsCfg1
                     (formatPolicyName (Host route) (Namespace_rt route) (Name_vs (Virtual rsCfg1)))
                     (Partition_vs (Virtual rsCfg1)) rules of
                Inl f \<Rightarrow> Inl f
              | Inr rsCfg2 \<Rightarrow> backendsLoop e route servicePort rest rsCfg2))
      else backendsLoop e route servicePort rest rsCfg1)"

definition prepareResourceConfigFromRoute ::
  "env \<Rightarrow> ResourceConfig \<Rightarrow> Route \<Rightarrow> int \<Rightarrow> portStruct \<Rightarrow> fault + (bool \<times> ResourceConfig)" where
  "prepareResourceConfigFromRoute e rsCfg route servicePort ps =
     (if protocol_ps ps = HTTP
         \<and> (case TLS_rt route of
               None \<Rightarrow> False
             | Some t \<Rightarrow> InsecureEdgeTerminationPolicy t = ''''
                         \<or> InsecureEdgeTerminationPolicy t = InsecureEdgeTerminationPolicyNone)
      then Inr (False, rsCfg)
      else backendsLoop e route servicePort (GetRouteBackends route)
             (rsCfg\<lparr>MetaData := (MetaData rsCfg)\<lparr>hosts := hosts (MetaData rsCfg) @ [Host route]\<rparr>\<rparr>))"

text \<open>
  \<open>removeUnusedHealthMonitors\<close>, its loop as written: \<open>i\<close> and \<open>monitorLen\<close> are the
  loop variables, an index beyond the slice is a panic.
\<close>

function removeLoop :: "Monitor list \<Rightarrow> nat \<Rightarrow> nat \<Rightarrow> fault + Monitor list" where
  "removeLoop monitors i monitorLen =
     (if i < monitorLen then
        (if i < length monitors then
           (if \<not> InUse (monitors ! i) then
              (if i = length monitors - 1 then removeLoop (take i monitors) i (monitorLen - 1)
               else removeLoop (take i monitors @ drop (i + 1) monitors) i (monitorLen - 1))
            else removeLoop monitors (i + 1) monitorLen)
         else Inl IndexOutOfRange)
      else Inr monitors)"
  by pat_completeness auto
termination
  by (relation "measure (\<lambda>(monitors, i, monitorLen). monitorLen - i)") auto

declare removeLoop.simps [simp del]

definition removeUnusedHealthMonitors :: "ResourceConfig \<Rightarrow> fault + ResourceConfig" where
  "removeUnusedHealthMonitors rsCfg =
     (case removeLoop (Monitors rsCfg) 0 (length (Monitors rsCfg)) of
        Inl f \<Rightarrow> Inl f
      | Inr monitors \<Rightarrow> Inr (rsCfg\<lparr>Monitors := monitors\<rparr>))"

text \<open>
  Modelled from the spec: \<open>updatePoolMembersForNodePort\<close> and
  \<open>updatePoolMembersForCluster\<close> are not among the sources. They fill in the members
  of the pools that serve the namespace.
\<close>

definition updatePoolMembers :: "env \<Rightarrow> ResourceConfig \<Rightarrow> string \<Rightarrow> ResourceConfig" where
  "updatePoolMembers e rsCfg namespace =
     rsCfg\<lparr>Pools := map (\<lambda>pool. if ServiceNamespace pool = namespace
                                 then pool\<lparr>Members := poolMembersFor e namespace pool\<rparr>
                                 else pool) (Pools rsCfg)\<rparr>"

subsection \<open>The resource store\<close>

definition getPartitionResourceMap :: "ResourceStore \<Rightarrow> string \<Rightarrow> ResourceMap \<times> ResourceStore" where
  "getPartitionResourceMap rs part =
     (case ltmConfig rs part of
        Some m \<Rightarrow> (m, rs)
      | None \<Rightarrow> (Map.empty, rs\<lparr>ltmConfig := (ltmConfig rs)(part \<mapsto> Map.empty)\<rparr>))"

definition getResource :: "ResourceStore \<Rightarrow> string \<Rightarrow> string \<Rightarrow> ResourceConfig option" where
  "getResource rs part nm =
     (case ltmConfig rs part of None \<Rightarrow> None | Some rsMap \<Rightarrow> rsMap nm)"

text \<open>
  Modelled from the spec: \<open>Controller.getVirtualServer\<close> is not among the sources; it
  is the lookup of \<open>getResource\<close>, nil when there is no such config.
\<close>

definition getVirtualServer :: "Controller \<Rightarrow> string \<Rightarrow> string \<Rightarrow> ResourceConfig option" where
  "getVirtualServer ctlr part rsName = getResource (resources ctlr) part rsName"

definition deleteVirtualServer :: "Controller \<Rightarrow> string \<Rightarrow> string \<Rightarrow> Controller" where
  "deleteVirtualServer ctlr part rsName =
     (let (m, rs) = getPartitionResourceMap (resources ctlr) part
      in ctlr\<lparr>resources := rs\<lparr>ltmConfig := (ltmConfig rs)(part \<mapsto> m(rsName := None))\<rparr>\<rparr>)"

subsection \<open>processRoutes\<close>

text \<open>
  The loop of \<open>processRoutes\<close> over the routes, for one virtual server. The flag of the
  result is \<open>processingError\<close>. The call site passes \<open>handleRouteTLS\<close> a fifth argument
  that the definition in resourceConfig.go does not have; the definition is followed.
\<close>

fun routeLoop ::
  "env \<Rightarrow> ExtendedRouteGroupSpec \<Rightarrow> portStruct \<Rightarrow> Route list \<Rightarrow> ResourceConfig \<times> Controller
     \<Rightarrow> fault + (bool \<times> ResourceConfig \<times> Controller)" where
  "routeLoop e extdSpec ps [] (rsCfg, ctlr) = Inr (False, rsCfg, ctlr)"
| "routeLoop e extdSpec ps (rt # rest) (rsCfg, ctlr) =
     (let rsCfg0 = rsCfg\<lparr>MetaData := (MetaData rsCfg)
                      \<lparr>baseResources := (baseResources (MetaData rsCfg))
                          (Namespace_rt rt @ ''/'' @ Name_rt rt \<mapsto> RouteKind)\<rparr>\<rparr>;
          port = snd (getServicePort e rt)
      in case prepareResourceConfigFromRoute e rsCfg0 rt port ps of
           Inl f \<Rightarrow> Inl f
         | Inr (err, rsCfg1) \<Rightarrow>
             if err then Inr (True, rsCfg1, ctlr)
             else
               (let processed = (\<lambda>cfg c.
                      routeLoop e extdSpec ps rest
                        (cfg, c\<lparr>resources := (resources c)
                                  \<lparr>processedNativeResources :=
                                     insert \<lparr>kind_rr = RouteKind, namespace_rr = Namespace_rt rt,
                                             name_rr = Name_rt rt\<rparr>
                                       (processedNativeResources (resources c))\<rparr>\<rparr>))
                in if isSecureRoute rt then
                     (case handleRouteTLS e (SSLContext ctlr) rsCfg1 rt extdSpec port of
                        Inl f \<Rightarrow> Inl f
                      | Inr (ok, rsCfg2, sslContext) \<Rightarrow>
                          if \<not> ok then Inr (True, rsCfg2, ctlr\<lparr>SSLContext := sslContext\<rparr>)
                          else processed rsCfg2 (ctlr\<lparr>SSLContext := sslContext\<rparr>))
                   else processed rsCfg1 ctlr))"

text \<open>The fresh config of \<open>processRoutes\<close> for one port.\<close>

definition newResourceConfig :: "ExtendedRouteGroupSpec \<Rightarrow> string \<Rightarrow> string \<Rightarrow> portStruct \<Rightarrow> ResourceConfig" where
  "newResourceConfig extdSpec part rsName ps =
     \<lparr>MetaData = \<lparr>ResourceType = VirtualServerKind, Protocol = protocol_ps ps,
                   baseResources = Map.empty, hosts = []\<rparr>,
      Virtual = \<lparr>Name_vs = rsName, Partition_vs = part, Enabled = True,
                  VirtualAddress = (if VServerAddr extdSpec = '''' \<and> port_ps ps = 0 then None
                                    else Some \<lparr>BindAddr = VServerAddr extdSpec, Port_va = port_ps ps\<rparr>),
                  SNAT_vs = '''', WAF_vs = '''', IRules_vs = None,
                  AllowSourceRange_vs = (case AllowSourceRange_spec extdSpec of
                                           None \<Rightarrow> None | Some xs \<Rightarrow> Some xs),
                  Profiles = [], Policies_vs = []\<rparr>,
      Pools = [], Monitors = [], Policies = [],
      IntDgMap = Map.empty, IRulesMap = Map.empty, customProfiles = Map.empty\<rparr>"

text \<open>
  The body of the loop over the ports, up to \<open>removeUnusedHealthMonitors\<close>: the flag
  \<open>processingError\<close>, the config that was built and the controller.
\<close>

definition buildConfig ::
  "env \<Rightarrow> ExtendedRouteGroupSpec \<Rightarrow> string \<Rightarrow> Route list \<Rightarrow> portStruct \<Rightarrow> Controller
     \<Rightarrow> fault + (bool \<times> ResourceConfig \<times> Controller)" where
  "buildConfig e extdSpec part routes ps ctlr =
     (let rsName = frameRouteVSName (VServerName extdSpec) (VServerAddr extdSpec) ps;
          rsCfg = handleRouteGroupExtendedSpec (newResourceConfig extdSpec part rsName ps) extdSpec
      in case routeLoop e extdSpec ps routes (rsCfg, ctlr) of
           Inl f \<Rightarrow> Inl f
         | Inr (processingError, rsCfg1, ctlr1) \<Rightarrow>
             (case removeUnusedHealthMonitors rsCfg1 of
                Inl f \<Rightarrow> Inl f
              | Inr rsCfg2 \<Rightarrow> Inr (processingError, rsCfg2, ctlr1)))"

fun portLoop ::
  "env \<Rightarrow> ExtendedRouteGroupSpec \<Rightarrow> string \<Rightarrow> string list \<Rightarrow> Route list \<Rightarrow> portStruct list
     \<Rightarrow> ResourceMap \<times> Controller \<Rightarrow> fault + (bool \<times> ResourceMap \<times> Controller)" where
  "portLoop e extdSpec part nss routes [] (vsMap, ctlr) = Inr (False, vsMap, ctlr)"
| "portLoop e extdSpec part nss routes (ps # rest) (vsMap, ctlr) =
     (let rsName = frameRouteVSName (VServerName extdSpec) (VServerAddr extdSpec) ps
      in if protocol_ps ps = ''http'' \<and> \<not> doRoutesHandleHTTP routes
         then portLoop e extdSpec part nss routes rest (vsMap, deleteVirtualServer ctlr part rsName)
         else
           (case buildConfig e extdSpec part routes ps ctlr of
              Inl f \<Rightarrow> Inl f
            | Inr (processingError, rsCfg, ctlr1) \<Rightarrow>
                if processingError then Inr (True, vsMap, ctlr1)
                else portLoop e extdSpec part nss routes rest
                       (vsMap(rsName \<mapsto> foldl (updatePoolMembers e) rsCfg nss), ctlr1)))"

text \<open>The final loop of \<open>processRoutes\<close>, which stores the configs of \<open>vsMap\<close>.\<close>

definition commitConfigs :: "Controller \<Rightarrow> string \<Rightarrow> ResourceMap \<Rightarrow> Controller" where
  "commitConfigs ctlr part vsMap =
     (if vsMap = Map.empty then ctlr
      else (let (m, rs) = getPartitionResourceMap (resources ctlr) part
            in ctlr\<lparr>resources := rs\<lparr>ltmConfig := (ltmConfig rs)(part \<mapsto> m ++ vsMap)\<rparr>\<rparr>))"

definition deleteGroupVirtuals :: "Controller \<Rightarrow> ExtendedRouteGroupSpec \<Rightarrow> string \<Rightarrow> Controller" where
  "deleteGroupVirtuals ctlr extdSpec part =
     foldl (\<lambda>c ps.
              (let rsName = frameRouteVSName (VServerName extdSpec) (VServerAddr extdSpec) ps
               in if getVirtualServer c part rsName \<noteq> None then deleteVirtualServer c part rsName
                  else c))
       ctlr getBasicVirtualPorts"

text \<open>
  \<open>processRoutes\<close>: the error it returns (\<open>None\<close> for nil) and the controller. The call
  site takes the partition as a second result of \<open>getExtendedRouteSpec\<close>; it is read
  from the entry of the group.
\<close>

definition processRoutes ::
  "env \<Rightarrow> Controller \<Rightarrow> string \<Rightarrow> bool \<Rightarrow> fault + (string option \<times> Controller)" where
  "processRoutes e ctlr routeGroup triggerDelete =
     (case getExtendedRouteSpec (resources ctlr) routeGroup of
        Inl f \<Rightarrow> Inl f
      | Inr None \<Rightarrow> Inr (Some ''extended Route Spec not available for RouteGroup/Namespace'', ctlr)
      | Inr (Some extdSpec) \<Rightarrow>
          (let part = (case map_of (extdSpecMap (resources ctlr)) routeGroup of
                         Some entry \<Rightarrow> partition_eps entry | None \<Rightarrow> '''')
           in case getGroupedRoutes e ctlr routeGroup (Some extdSpec) of
                Inl f \<Rightarrow> Inl f
              | Inr (ctlr1, routes) \<Rightarrow>
                  if triggerDelete \<or> length routes = 0
                  then Inr (None, deleteGroupVirtuals ctlr1 extdSpec part)
                  else
                    (case map_of (extdSpecMap (resources ctlr1)) routeGroup of
                       None \<Rightarrow> Inl NilDereference
                     | Some entry \<Rightarrow>
                         (case portLoop e extdSpec part (elems (namespaces entry)) routes
                                 (getVirtualPortsForRoutes routes) (Map.empty, ctlr1) of
                            Inl f \<Rightarrow> Inl f
                          | Inr (processingError, vsMap, ctlr2) \<Rightarrow>
                              if \<not> processingError then Inr (None, commitConfigs ctlr2 part vsMap)
                              else Inr (None, ctlr2)))))"

subsection \<open>Properties of a built config\<close>

text \<open>
  Every monitor that is marked in use is named by a pool of the config and its path
  begins with host and path of one of the routes.
\<close>

definition monitorsBound :: "Route list \<Rightarrow> ResourceConfig \<Rightarrow> bool" where
  "monitorsBound routes rsCfg =
     list_all (\<lambda>m. \<not> InUse m
                  \<or> (list_ex (\<lambda>p. Name_mon m \<in> set (MonitorNames p)) (Pools rsCfg)
                      \<and> list_ex (\<lambda>r. HasPrefix (Path_mon m) (Host r @ Path_rt r)) routes))
       (Monitors rsCfg)"

text \<open>Every monitor of the config is in use, named by a pool and bound by a route.\<close>

definition monitorsInUse :: "Route list \<Rightarrow> ResourceConfig \<Rightarrow> bool" where
  "monitorsInUse routes rsCfg =
     list_all (\<lambda>m. InUse m
                  \<and> list_ex (\<lambda>p. Name_mon m \<in> set (MonitorNames p)) (Pools rsCfg)
                  \<and> list_ex (\<lambda>r. HasPrefix (Path_mon m) (Host r @ Path_rt r)) routes)
       (Monitors rsCfg)"

text \<open>Every rule of every policy of the config has ordinal 0.\<close>

definition ordinalsZero :: "ResourceConfig \<Rightarrow> bool" where
  "ordinalsZero rsCfg = list_all (\<lambda>pol. list_all (\<lambda>r. Ordinal r = 0) (Rules pol)) (Policies rsCfg)"

text \<open>The URI and the ordinal of every rule, policy by policy.\<close>

definition policyOrdinals :: "ResourceConfig \<Rightarrow> (string \<times> int) list list" where
  "policyOrdinals rsCfg = map (\<lambda>pol. map (\<lambda>r. (FullURI r, Ordinal r)) (Rules pol)) (Policies rsCfg)"

text \<open>Every config of the store \<open>after\<close> is in the store \<open>before\<close>, under its partition and name.\<close>

definition lookupConfig :: "LTMConfig \<Rightarrow> string \<Rightarrow> string \<Rightarrow> ResourceConfig option" where
  "lookupConfig ltm part nm = (case ltm part of None \<Rightarrow> None | Some rsMap \<Rightarrow> rsMap nm)"

definition storedBefore :: "LTMConfig \<Rightarrow> LTMConfig \<Rightarrow> bool" where
  "storedBefore before after =
     (\<forall>part nm. lookupConfig after part nm = None
                \<or> lookupConfig after part nm = lookupConfig before part nm)"

text \<open>The config that the store of a controller holds under a partition and a name.\<close>

definition storedAt :: "string \<Rightarrow> string \<Rightarrow> Controller \<Rightarrow> ResourceConfig option" where
  "storedAt part nm ctlr = lookupConfig (ltmConfig (resources ctlr)) part nm"

text \<open>The parts of a config that TLS handling leaves alone.\<close>

definition configCore ::
  "ResourceConfig \<Rightarrow> Monitor list \<times> Pool list \<times> Policy list \<times> virtualAddress option \<times> string \<times> string" where
  "configCore rsCfg =
     (Monitors rsCfg, Pools rsCfg, Policies rsCfg, VirtualAddress (Virtual rsCfg),
      Name_vs (Virtual rsCfg), Partition_vs (Virtual rsCfg))"


section \<open>Publishing to the agent (nativeResourceWorker.go, resourceConfig.go)\<close>

text \<open>
  \<open>getLTMConfigCopy\<close>: a new map of new partition maps that hold the same
  \<open>*ResourceConfig\<close> values.
\<close>

definition getLTMConfigCopy :: "ResourceStore \<Rightarrow> LTMConfig" where
  "getLTMConfigCopy rs =
     (\<lambda>prtn. case ltmConfig rs prtn of
               None \<Rightarrow> None
             | Some rsMap \<Rightarrow> Some (\<lambda>rsName. rsMap rsName))"

text \<open>
  \<open>getGTMConfigCopy\<close>: the loop stores every WideIP of \<open>dnsConfig\<close> into
  \<open>rs.dnsConfigCache\<close>; the map \<open>dnsConfig\<close> it made is returned as it was made, empty.
  The result and the store the loop leaves.
\<close>

definition getGTMConfigCopy :: "ResourceStore \<Rightarrow> DNSConfig \<times> ResourceStore" where
  "getGTMConfigCopy rs = (Map.empty, rs\<lparr>dnsConfigCache := dnsConfigCache rs ++ dnsConfig rs\<rparr>)"

text \<open>\<open>updateCaches\<close>: the two assignments in turn.\<close>

definition updateCaches :: "ResourceStore \<Rightarrow> ResourceStore" where
  "updateCaches rs =
     (let rs1 = rs\<lparr>ltmConfigCache := getLTMConfigCopy rs\<rparr>;
          (dnsCopy, rs2) = getGTMConfigCopy rs1
      in rs2\<lparr>dnsConfigCache := dnsCopy\<rparr>)"

text \<open>\<open>isConfigUpdated\<close>: \<open>reflect.DeepEqual\<close> on the maps is equality of their contents.\<close>

definition isConfigUpdated :: "ResourceStore \<Rightarrow> bool" where
  "isConfigUpdated rs =
     (\<not> (ltmConfig rs = ltmConfigCache rs) \<or> \<not> (dnsConfig rs = dnsConfigCache rs))"

text \<open>
  Modelled from the spec: \<open>getLTMConfigDeepCopy\<close> is not in the sources at hand; the
  request carries the virtual-server configs of all partitions, a copy of \<open>ltmConfig\<close>
  with the same contents.
\<close>

definition getLTMConfigDeepCopy :: "ResourceStore \<Rightarrow> LTMConfig" where
  "getLTMConfigDeepCopy rs = ltmConfig rs"

text \<open>
  \<open>postResourceConfigRequest\<close>. The request is built field by field, so
  \<open>getGTMConfigCopy\<close> runs once here and once in \<open>updateCaches\<close>. \<open>enqueueReq\<close> and
  \<open>Agent.PostConfig\<close> are recorded by appending the request to \<open>posted\<close>; the
  telemetry call is not modelled.
\<close>

definition postResourceConfigRequest :: "Controller \<Rightarrow> Controller" where
  "postResourceConfigRequest ctlr =
     (if isConfigUpdated (resources ctlr) then
        (let ltm = getLTMConfigDeepCopy (resources ctlr);
             (gtm, rs1) = getGTMConfigCopy (resources ctlr);
             config = \<lparr>ltmConfig_req = ltm, shareNodes_req = shareNodes ctlr,
                       gtmConfig_req = gtm, defaultRouteDomain_req = defaultRouteDomain ctlr\<rparr>
         in ctlr\<lparr>resources := updateCaches rs1, posted := posted ctlr @ [config],
                  initState := False\<rparr>)
      else ctlr)"

text \<open>
  The end of \<open>processNativeResource\<close> after an event is drained: the publish check runs
  when the queue is empty. \<open>queueLen\<close> is \<open>ctlr.nativeResourceQueue.Len()\<close>.
\<close>

definition publishCheck :: "nat \<Rightarrow> Controller \<Rightarrow> Controller" where
  "publishCheck queueLen ctlr = (if queueLen = 0 then postResourceConfigRequest ctlr else ctlr)"


section \<open>Example inputs\<close>

text \<open>Concrete values at which the theorems below are instantiated.\<close>

definition exSpec :: "string \<Rightarrow> ExtendedRouteGroupSpec" where
  "exSpec vsName =
     \<lparr>VServerName = vsName, VServerAddr = ''10.8.3.11'', AllowSourceRange_spec = None,
      SNAT_spec = '''', WAF_spec = '''', IRules_spec = None, HealthMonitors = None,
      TLS_spec = \<lparr>ClientSSL = '''', ServerSSL = '''', Reference = ''''\<rparr>,
      DependsOnTLSCipher = False\<rparr>"

definition exParsed :: "string \<Rightarrow> string \<Rightarrow> string \<Rightarrow> extendedParsedSpec" where
  "exParsed ns vsName part =
     \<lparr>override = Some False, local_eps = None, global_eps = Some (exSpec vsName),
      namespaces = Some [ns], partition_eps = part\<rparr>"

definition exStore :: "extendedSpecMap \<Rightarrow> ResourceStore" where
  "exStore m =
     \<lparr>ltmConfig = Map.empty, ltmConfigCache = Map.empty, dnsConfig = Map.empty,
      dnsConfigCache = Map.empty, extdSpecMap = m, processedNativeResources = {}\<rparr>"

definition exCached :: extendedSpecMap where
  "exCached = [(''ns1'', exParsed ''ns1'' ''gw'' ''test''), (''ns2'', exParsed ''ns2'' ''gw'' ''test'')]"

definition exNew :: extendedSpecMap where
  "exNew = [(''ns3'', exParsed ''ns3'' ''gw'' ''test''), (''ns2'', exParsed ''ns2'' ''gw'' ''dev'')]"

definition exRoute :: "string \<Rightarrow> string \<Rightarrow> string \<Rightarrow> int \<Rightarrow> TLSConfig option \<Rightarrow> Route" where
  "exRoute nm host path ts tls =
     \<lparr>Namespace_rt = ''ns1'', Name_rt = nm, CreationTimestamp = ts, Annotations = Map.empty,
      Host = host, Path_rt = path, To = ''svc'', AlternateBackends = [],
      TargetPort = Some \<lparr>IntVal = 8080, StrVal = ''''\<rparr>, TLS_rt = tls\<rparr>"

definition exRule :: "string \<Rightarrow> string \<Rightarrow> string \<Rightarrow> string slice \<Rightarrow> Rule option" where
  "exRule uri poolName ruleName allowSourceRange =
     Some \<lparr>Name_rule = ruleName, FullURI = uri, Ordinal = 0, Actions = [Action poolName],
           Conditions = [\<lparr>HTTPHost = True, Tcp = False,
                          Values = [takeWhile (\<lambda>c. c \<noteq> CHR ''/'') uri]\<rparr>]\<rparr>"

definition exEnv :: "Route list \<Rightarrow> env" where
  "exEnv cache =
     \<lparr>routeCache = (\<lambda>ns. Some cache),
      essentialInformer = (\<lambda>ns. True),
      GetServicePort = (\<lambda>ns svc portName. (8080, False)),
      checkCertificateHost = (\<lambda>host cert key. True),
      createRule = exRule,
      getRewriteActions = (\<lambda>path rewritePath n. None),
      formatVirtualServerRuleName = (\<lambda>host ns path pool. ''vs_'' @ AS3NameFormatter (host @ path) @ ''_'' @ pool),
      RulesLess = (\<lambda>a b. Ordinal a < Ordinal b),
      DEFAULT_PARTITION = ''test'',
      URLRewriteAnnotation = ''virtual-server.f5.com/rewrite-target-url'',
      F5VsBalanceAnnotation = ''virtual-server.f5.com/balance'',
      getSecret = (\<lambda>ns nm. None),
      createSecretClientSSLProfile = (\<lambda>secret ctx cps prs. (False, cps, prs)),
      createSecretServerSSLProfile = (\<lambda>secret ctx cps prs. (False, cps, prs)),
      createClientSSLProfile = (\<lambda>key cert nm ns ctx cps prs. (False, cps, prs)),
      createServerSSLProfile = (\<lambda>cert ca nm ns ctx cps prs. (False, cps, prs)),
      updateDataGroup = (\<lambda>dgs nm part ns key val. dgs),
      updateDataGroupOfDgName = (\<lambda>dgs refs vs dg host ns. dgs),
      httpRedirectIRule = (\<lambda>port vs part. ''redirect''),
      httpRedirectIRuleNoHost = (\<lambda>port. ''redirect''),
      getTLSIRule = (\<lambda>vs. ''tls''),
      poolMembersFor = (\<lambda>ns pool. [])\<rparr>"

text \<open>The example environment with no service named \<open>gone\<close>.\<close>

definition exEnvNoService :: "Route list \<Rightarrow> env" where
  "exEnvNoService cache =
     (exEnv cache)\<lparr>GetServicePort := (\<lambda>ns svc portName. (0, svc = ''gone''))\<rparr>"

definition exController :: "extendedSpecMap \<Rightarrow> Controller" where
  "exController m =
     \<lparr>resources = exStore m, processedHostPathMap = Map.empty, SSLContext = Map.empty,
      initState = False, shareNodes = False, defaultRouteDomain = 0, admitStatus = [],
      posted = []\<rparr>"

text \<open>A controller whose store holds one WideIP and nothing else; nothing was published.\<close>

definition exWideIP :: WideIP where
  "exWideIP = \<lparr>DomainName = ''a.com'', RecordType = ''A'', LBMethod = ''round-robin''\<rparr>"

definition exDnsController :: Controller where
  "exDnsController =
     (exController [])\<lparr>resources := (exStore [])\<lparr>dnsConfig := [''a.com'' \<mapsto> exWideIP]\<rparr>\<rparr>"

section \<open>Extended specification: effective spec and operational delta\<close>

text \<open>
  The effective spec of a group whose \<open>override\<close> pointer is set: the local spec when
  the flag is true and the local spec is not nil, the global spec otherwise; nil for
  a group that is not in the map; a panic when the pointer is nil.
\<close>

lemma getExtendedRouteSpec_cases:
  "(map_of (extdSpecMap rs) routeGroup = None \<longrightarrow> getExtendedRouteSpec rs routeGroup = Inr None)
   \<and> (\<forall>e. map_of (extdSpecMap rs) routeGroup = Some e \<longrightarrow>
         (override e = None \<longrightarrow> getExtendedRouteSpec rs routeGroup = Inl NilDereference)
       \<and> (override e = Some True \<and> local_eps e \<noteq> None \<longrightarrow>
             getExtendedRouteSpec rs routeGroup = Inr (local_eps e))
       \<and> (override e = Some False \<or> (override e = Some True \<and> local_eps e = None) \<longrightarrow>
             getExtendedRouteSpec rs routeGroup = Inr (global_eps e)))"
  by (auto simp: getExtendedRouteSpec_def)

lemma getExtendedRouteSpec_examples:
  "getExtendedRouteSpec
     (exStore [(''ns1'', (exParsed ''ns1'' ''gw'' ''test'')\<lparr>override := Some True, local_eps := Some (exSpec ''gw2'')\<rparr>),
               (''ns2'', exParsed ''ns2'' ''gw'' ''test'')]) ''ns1'' = Inr (Some (exSpec ''gw2''))
   \<and> getExtendedRouteSpec
     (exStore [(''ns1'', (exParsed ''ns1'' ''gw'' ''test'')\<lparr>override := Some True, local_eps := Some (exSpec ''gw2'')\<rparr>),
               (''ns2'', exParsed ''ns2'' ''gw'' ''test'')]) ''ns2'' = Inr (Some (exSpec ''gw''))
   \<and> getExtendedRouteSpec
     (exStore [(''ns1'', (exParsed ''ns1'' ''gw'' ''test'')\<lparr>override := Some True, local_eps := Some (exSpec ''gw2'')\<rparr>),
               (''ns2'', exParsed ''ns2'' ''gw'' ''test'')]) ''ns3'' = Inr None"
  by (simp add: getExtendedRouteSpec_def exStore_def exParsed_def)


lemma cachedLoop_lists:
  assumes "allGlobal cs" "allGlobal newMap"
  shows "cachedLoop newMap cs (d, m, u, um) =
     Inr (d @ map fst (filter (specDeleted newMap) cs),
          m @ map fst (filter (specModified newMap) cs),
          u @ map fst (filter (specUpdated newMap) cs),
          foldl (\<lambda>um k. um(k \<mapsto> True)) um (map fst (filter (specUpdated newMap) cs)))"
  using assms(1)
proof (induction cs arbitrary: d m u um)
  case Nil
  then show ?case by simp
next
  case (Cons a cs)
  obtain k s where a: "a = (k, s)" by (cases a)
  from Cons.prems a obtain g where g: "global_eps s = Some g" by (auto simp: allGlobal_def)
  have rest: "allGlobal cs" using Cons.prems by (simp add: allGlobal_def)
  note IH = Cons.IH[OF rest]
  show ?case
  proof (cases "map_of newMap k")
    case None
    then show ?thesis unfolding a
      by (simp add: IH specDeleted_def specModified_def specUpdated_def)
  next
    case (Some s')
    then have "(k, s') \<in> set newMap" by (rule map_of_SomeD)
    with assms(2) obtain g' where g': "global_eps s' = Some g'"
      by (auto simp: allGlobal_def list_all_iff)
    show ?thesis
    proof (cases "s = s'")
      case True
      with Some show ?thesis unfolding a
        by (simp add: IH specDeleted_def specModified_def specUpdated_def)
    next
      case ne: False
      have c: "identityDiffers s s' \<longleftrightarrow>
          (VServerName g \<noteq> VServerName g' \<or> override s \<noteq> override s'
           \<or> partition_eps s \<noteq> partition_eps s')"
        using g g' by (simp add: identityDiffers_def)
      show ?thesis
      proof (cases "identityDiffers s s'")
        case True
        with c have c': "VServerName g \<noteq> VServerName g' \<or> override s \<noteq> override s'
            \<or> partition_eps s \<noteq> partition_eps s'" by simp
        from Some ne True g g' show ?thesis unfolding a
          using c' by (simp add: IH specDeleted_def specModified_def specUpdated_def)
      next
        case False
        with c have c': "\<not> (VServerName g \<noteq> VServerName g' \<or> override s \<noteq> override s'
            \<or> partition_eps s \<noteq> partition_eps s')" by simp
        from Some ne False g g' show ?thesis unfolding a
          using c' by (simp add: IH specDeleted_def specModified_def specUpdated_def)
      qed
    qed
  qed
qed

lemma dom_foldl_upd: "dom (foldl (\<lambda>um k. um(k \<mapsto> True)) um ks) = dom um \<union> set ks"
  by (induction ks arbitrary: um) auto

lemma cipherLoop_lists:
  assumes "allGlobal cs"
  shows "cipherLoop cs um u =
     Inr (u @ map fst (filter (\<lambda>kv. cipherDependent (snd kv) \<and> fst kv \<notin> dom um) cs))"
  using assms
proof (induction cs arbitrary: u)
  case Nil
  then show ?case by simp
next
  case (Cons a cs)
  obtain k s where a: "a = (k, s)" by (cases a)
  from Cons.prems a obtain g where g: "global_eps s = Some g" by (auto simp: allGlobal_def)
  have rest: "allGlobal cs" using Cons.prems by (simp add: allGlobal_def)
  show ?case unfolding a using g
    by (auto simp: Cons.IH[OF rest] cipherDependent_def domIff)
qed

lemma keys_filter_distinct:
  assumes "distinct (map fst cs)"
  shows "set (map fst (filter P cs)) = {k. \<exists>s. map_of cs k = Some s \<and> P (k, s)}"
proof -
  have "\<And>k s. (k, s) \<in> set cs \<longleftrightarrow> map_of cs k = Some s"
    using assms by (auto dest: map_of_SomeD)
  then show ?thesis by (auto simp: image_iff)
qed



text \<open>
  Claim C6, as amended. The classification holds for a call that is not a deletion
  (\<open>isDelete\<close> false) on maps whose entries all carry a global spec (a nil global
  spec is dereferenced): a cached key absent from the new map is deleted; a key in both
  maps with differing specs is modified exactly when the global virtual-server name,
  the override flag or the partition differ; a key that is not cipher-dependent is
  updated exactly when its specs differ without such a difference; a cipher-dependent
  cached key that is in the new map with the same identity is updated in every call
  (the function is not told whether the cipher default changed); a key only in the
  new map is created. With \<open>isDelete\<close> true every key of the new map is reported
  deleted and nothing else is reported.
\<close>

theorem operationalSpecs_classification:
  assumes g: "allGlobal cachedMap" "allGlobal newMap"
    and dist: "distinct (map fst cachedMap)" "distinct (map fst newMap)"
  shows "(\<exists>d m u c. getOperationalExtendedConfigMapSpecs cachedMap newMap False = Inr (d, m, u, c)
     \<and> set d = {k. \<exists>s. map_of cachedMap k = Some s \<and> map_of newMap k = None}
     \<and> set m = {k. \<exists>s s'. map_of cachedMap k = Some s \<and> map_of newMap k = Some s'
                     \<and> s \<noteq> s' \<and> identityDiffers s s'}
     \<and> (\<forall>k s. map_of cachedMap k = Some s \<and> \<not> cipherDependent s \<longrightarrow>
           (k \<in> set u \<longleftrightarrow> (\<exists>s'. map_of newMap k = Some s' \<and> s \<noteq> s' \<and> \<not> identityDiffers s s')))
     \<and> (\<forall>k s s'. map_of cachedMap k = Some s \<and> map_of newMap k = Some s' \<and> cipherDependent s
           \<and> \<not> identityDiffers s s' \<longrightarrow> k \<in> set u)
     \<and> set u \<subseteq> dom (map_of cachedMap)
     \<and> set c = {k. \<exists>s'. map_of newMap k = Some s' \<and> map_of cachedMap k = None})
   \<and> getOperationalExtendedConfigMapSpecs cachedMap newMap True = Inr (map fst newMap, [], [], [])"
proof -
  let ?d = "map fst (filter (specDeleted newMap) cachedMap)"
  let ?m = "map fst (filter (specModified newMap) cachedMap)"
  let ?u1 = "map fst (filter (specUpdated newMap) cachedMap)"
  let ?um = "foldl (\<lambda>um k. um(k \<mapsto> True)) Map.empty ?u1"
  let ?u2 = "map fst (filter (\<lambda>kv. cipherDependent (snd kv) \<and> fst kv \<notin> dom ?um) cachedMap)"
  let ?c = "createdLoop cachedMap newMap"
  have r: "getOperationalExtendedConfigMapSpecs cachedMap newMap False = Inr (?d, ?m, ?u1 @ ?u2, ?c)"
    by (simp add: getOperationalExtendedConfigMapSpecs_def cachedLoop_lists[OF g] cipherLoop_lists[OF g(1)])
  have dum: "dom ?um = set ?u1" by (simp add: dom_foldl_upd)
  have sd: "set ?d = {k. \<exists>s. map_of cachedMap k = Some s \<and> map_of newMap k = None}"
    by (subst keys_filter_distinct[OF dist(1)]) (simp add: specDeleted_def)
  have sm: "set ?m = {k. \<exists>s s'. map_of cachedMap k = Some s \<and> map_of newMap k = Some s'
                     \<and> s \<noteq> s' \<and> identityDiffers s s'}"
    by (subst keys_filter_distinct[OF dist(1)]) (auto simp: specModified_def split: option.splits)
  have su1: "set ?u1 = {k. \<exists>s s'. map_of cachedMap k = Some s \<and> map_of newMap k = Some s'
                     \<and> s \<noteq> s' \<and> \<not> identityDiffers s s'}"
    by (subst keys_filter_distinct[OF dist(1)]) (auto simp: specUpdated_def split: option.splits)
  have su2: "set ?u2 = {k. \<exists>s. map_of cachedMap k = Some s \<and> cipherDependent s \<and> k \<notin> set ?u1}"
    unfolding dum by (subst keys_filter_distinct[OF dist(1)]) simp
  have sc: "set ?c = {k. \<exists>s'. map_of newMap k = Some s' \<and> map_of cachedMap k = None}"
    using dist(2) by (auto simp: createdLoop_def dest: map_of_SomeD) (metis map_of_eq_None_iff not_Some_eq image_iff fst_conv)
  have A: "\<forall>k s. map_of cachedMap k = Some s \<and> \<not> cipherDependent s \<longrightarrow>
           (k \<in> set (?u1 @ ?u2) \<longleftrightarrow> (\<exists>s'. map_of newMap k = Some s' \<and> s \<noteq> s' \<and> \<not> identityDiffers s s'))"
    unfolding set_append su1 su2 by auto
  have B: "\<forall>k s s'. map_of cachedMap k = Some s \<and> map_of newMap k = Some s' \<and> cipherDependent s
           \<and> \<not> identityDiffers s s' \<longrightarrow> k \<in> set (?u1 @ ?u2)"
    unfolding set_append su1 su2 by auto
  have C: "set (?u1 @ ?u2) \<subseteq> dom (map_of cachedMap)"
    unfolding set_append su1 su2 by auto
  have D: "getOperationalExtendedConfigMapSpecs cachedMap newMap True = Inr (map fst newMap, [], [], [])"
    by (simp add: getOperationalExtendedConfigMapSpecs_def)
  have E: "\<exists>d m u c. getOperationalExtendedConfigMapSpecs cachedMap newMap False = Inr (d, m, u, c)
     \<and> set d = {k. \<exists>s. map_of cachedMap k = Some s \<and> map_of newMap k = None}
     \<and> set m = {k. \<exists>s s'. map_of cachedMap k = Some s \<and> map_of newMap k = Some s'
                     \<and> s \<noteq> s' \<and> identityDiffers s s'}
     \<and> (\<forall>k s. map_of cachedMap k = Some s \<and> \<not> cipherDependent s \<longrightarrow>
           (k \<in> set u \<longleftrightarrow> (\<exists>s'. map_of newMap k = Some s' \<and> s \<noteq> s' \<and> \<not> identityDiffers s s')))
     \<and> (\<forall>k s s'. map_of cachedMap k = Some s \<and> map_of newMap k = Some s' \<and> cipherDependent s
           \<and> \<not> identityDiffers s s' \<longrightarrow> k \<in> set u)
     \<and> set u \<subseteq> dom (map_of cachedMap)
     \<and> set c = {k. \<exists>s'. map_of newMap k = Some s' \<and> map_of cachedMap k = None}"
    apply (rule exI[of _ ?d], rule exI[of _ ?m], rule exI[of _ "?u1 @ ?u2"], rule exI[of _ ?c])
    apply (intro conjI)
          apply (rule r)
         apply (rule sd)
        apply (rule sm)
       apply (rule A)
      apply (rule B)
     apply (rule C)
    apply (rule sc)
    done
  from E D show ?thesis by (rule conjI)
qed


theorem operationalSpecs_classification_witness:
  "allGlobal exCached \<and> allGlobal exNew \<and> distinct (map fst exCached) \<and> distinct (map fst exNew)
   \<and> (\<exists>d m u c. getOperationalExtendedConfigMapSpecs exCached exNew False = Inr (d, m, u, c)
         \<and> ''ns1'' \<in> set d \<and> ''ns2'' \<in> set m \<and> ''ns3'' \<in> set c)"
proof -
  have h: "allGlobal exCached" "allGlobal exNew" "distinct (map fst exCached)" "distinct (map fst exNew)"
    by (simp_all add: allGlobal_def exCached_def exNew_def exParsed_def)
  from operationalSpecs_classification[OF h]
  obtain d m u c where r: "getOperationalExtendedConfigMapSpecs exCached exNew False = Inr (d, m, u, c)"
     and d: "set d = {k. \<exists>s. map_of exCached k = Some s \<and> map_of exNew k = None}"
     and m: "set m = {k. \<exists>s s'. map_of exCached k = Some s \<and> map_of exNew k = Some s'
                     \<and> s \<noteq> s' \<and> identityDiffers s s'}"
     and c: "set c = {k. \<exists>s'. map_of exNew k = Some s' \<and> map_of exCached k = None}"
    by (elim conjE exE) (rule that)
  have "''ns1'' \<in> set d" unfolding d by (simp add: exCached_def exNew_def)
  moreover have "''ns2'' \<in> set m" unfolding m
    by (simp add: exCached_def exNew_def exParsed_def identityDiffers_def)
  moreover have "''ns3'' \<in> set c" unfolding c by (simp add: exCached_def exNew_def)
  ultimately show ?thesis using h r by simp
qed

text \<open>
  The claim as stated fails on a deletion event: a key that is only in the new map is
  then reported deleted, not created.
\<close>

theorem operationalSpecs_delete_counterexample:
  "getOperationalExtendedConfigMapSpecs [] [(''ns1'', exParsed ''ns1'' ''gw'' ''test'')] True
     = Inr ([''ns1''], [], [], [])"
  by (simp add: getOperationalExtendedConfigMapSpecs_def)



section \<open>Route ordering\<close>

lemma mset_insertLess: "mset (insertLess lt x p) = add_mset x (mset p)"
  by (induction p) auto

lemma set_insertLess: "set (insertLess lt x p) = insert x (set p)"
  by (induction p) auto

lemma mset_sortSlice: "mset (sortSlice lt xs) = mset xs"
proof -
  have "\<And>p. mset (foldl (\<lambda>p x. insertLess lt x p) p xs) = mset p + mset xs"
    by (induction xs) (auto simp: mset_insertLess)
  then show ?thesis by (simp add: sortSlice_def)
qed

lemma sorted_insertLess:
  assumes asym: "\<And>a b. P a \<Longrightarrow> P b \<Longrightarrow> lt a b \<Longrightarrow> \<not> lt b a"
    and trans: "\<And>a b c. P a \<Longrightarrow> P b \<Longrightarrow> P c \<Longrightarrow> \<not> lt a b \<Longrightarrow> \<not> lt b c \<Longrightarrow> \<not> lt a c"
  shows "P x \<Longrightarrow> \<forall>y\<in>set p. P y \<Longrightarrow> sorted_wrt (\<lambda>a b. \<not> lt a b) p
         \<Longrightarrow> sorted_wrt (\<lambda>a b. \<not> lt a b) (insertLess lt x p)"
proof (induction p)
  case Nil
  then show ?case by simp
next
  case (Cons y ys)
  show ?case
  proof (cases "lt x y")
    case True
    have "\<not> lt y x" using asym[OF Cons.prems(1) _ True] Cons.prems(2) by simp
    with True Cons show ?thesis by (auto simp: set_insertLess)
  next
    case False
    have "\<forall>z\<in>set ys. \<not> lt x z"
    proof
      fix z assume z: "z \<in> set ys"
      then have "\<not> lt y z" using Cons.prems(3) by simp
      with False show "\<not> lt x z" using trans[of x y z] Cons.prems(1,2) z by simp
    qed
    with False Cons.prems(3) show ?thesis by simp
  qed
qed

lemma sorted_sortSlice:
  assumes asym: "\<And>a b. P a \<Longrightarrow> P b \<Longrightarrow> lt a b \<Longrightarrow> \<not> lt b a"
    and trans: "\<And>a b c. P a \<Longrightarrow> P b \<Longrightarrow> P c \<Longrightarrow> \<not> lt a b \<Longrightarrow> \<not> lt b c \<Longrightarrow> \<not> lt a c"
    and P: "\<forall>x\<in>set xs. P x"
  shows "sorted_wrt (\<lambda>a b. \<not> lt b a) (sortSlice lt xs)"
proof -
  have "\<And>p. \<forall>y\<in>set p. P y \<Longrightarrow> sorted_wrt (\<lambda>a b. \<not> lt a b) p
       \<Longrightarrow> sorted_wrt (\<lambda>a b. \<not> lt a b) (foldl (\<lambda>p x. insertLess lt x p) p xs)"
    using P
  proof (induction xs)
    case Nil
    then show ?case by simp
  next
    case (Cons x xs)
    have px: "P x" using Cons.prems(3) by simp
    have 1: "sorted_wrt (\<lambda>a b. \<not> lt a b) (insertLess lt x p)"
      by (rule sorted_insertLess[where P = P, OF asym trans px Cons.prems(1) Cons.prems(2)])
    have 2: "\<forall>y\<in>set (insertLess lt x p). P y" using Cons.prems by (simp add: set_insertLess)
    have 3: "\<forall>x\<in>set xs. P x" using Cons.prems(3) by simp
    from Cons.IH[OF 2 1 3] show ?case by simp
  qed
  from this[of "[]"] have "sorted_wrt (\<lambda>a b. \<not> lt a b) (foldl (\<lambda>p x. insertLess lt x p) [] xs)" by simp
  then show ?thesis by (simp add: sortSlice_def sorted_wrt_rev)
qed


lemma slash_less: "take 1 p = ''/'' \<Longrightarrow> p \<noteq> ''/'' \<Longrightarrow> ''/'' < p"
proof -
  assume a: "take 1 p = ''/''" "p \<noteq> ''/''"
  then obtain q where p: "p = CHR ''/'' # q" by (cases p) auto
  with a have "q \<noteq> []" by simp
  then obtain c q' where "q = c # q'" by (cases q) auto
  with p show ?thesis by simp
qed

lemma routeLess_hosts_differ: "Host a \<noteq> Host b \<Longrightarrow> routeLess a b \<longleftrightarrow> \<not> routeOrdered b a"
  by (auto simp: routeLess_def routeOrdered_def)

lemma routeLess_both_empty: "Host a = Host b \<Longrightarrow> Path_rt a = [] \<Longrightarrow> Path_rt b = [] \<Longrightarrow> routeLess a b \<longleftrightarrow> \<not> routeOrdered b a"
  by (auto simp: routeLess_def routeOrdered_def normPath_def)

lemma routeLess_empty_root: "Host a = Host b \<Longrightarrow> Path_rt a = [] \<Longrightarrow> Path_rt b = ''/'' \<Longrightarrow> routeLess a b \<longleftrightarrow> \<not> routeOrdered b a"
  by (auto simp: routeLess_def routeOrdered_def normPath_def)

lemma routeLess_root_empty: "Host a = Host b \<Longrightarrow> Path_rt a = ''/'' \<Longrightarrow> Path_rt b = [] \<Longrightarrow> routeLess a b \<longleftrightarrow> \<not> routeOrdered b a"
  by (auto simp: routeLess_def routeOrdered_def normPath_def)

lemma less_not_sym_string: "''/'' < (p::string) \<Longrightarrow> \<not> p < ''/'' \<and> p \<noteq> ''/''"
  by (simp add: not_less_iff_gr_or_eq)

lemma routeLess_empty_other: "Host a = Host b \<Longrightarrow> Path_rt a = [] \<Longrightarrow> Path_rt b \<noteq> [] \<Longrightarrow> ''/'' < Path_rt b \<Longrightarrow> [] < Path_rt b
   \<Longrightarrow> \<not> Path_rt b < ''/'' \<Longrightarrow> Path_rt b \<noteq> ''/'' \<Longrightarrow> routeLess a b \<longleftrightarrow> \<not> routeOrdered b a"
  by (simp add: routeLess_def routeOrdered_def normPath_def)

lemma routeLess_other_empty: "Host a = Host b \<Longrightarrow> Path_rt b = [] \<Longrightarrow> Path_rt a \<noteq> [] \<Longrightarrow> Path_rt a \<noteq> ''/'' \<Longrightarrow> ''/'' < Path_rt a
    \<Longrightarrow> routeLess a b \<longleftrightarrow> \<not> routeOrdered b a"
  by (simp add: routeLess_def routeOrdered_def normPath_def)

lemma routeLess_both_nonempty: "Host a = Host b \<Longrightarrow> Path_rt b \<noteq> [] \<Longrightarrow> Path_rt a \<noteq> [] \<Longrightarrow> routeLess a b \<longleftrightarrow> \<not> routeOrdered b a"
  by (simp add: routeLess_def routeOrdered_def normPath_def) (metis not_less_iff_gr_or_eq not_le)


lemma routeLess_iff:
  assumes wa: "wellFormedPath a" and wb: "wellFormedPath b"
  shows "routeLess a b \<longleftrightarrow> \<not> routeOrdered b a"
proof (cases "Host a = Host b")
  case False
  then show ?thesis by (rule routeLess_hosts_differ)
next
  case H: True
  show ?thesis
  proof (cases "Path_rt a = []")
    case ea: True
    show ?thesis
    proof (cases "Path_rt b = []")
      case True
      from H ea True show ?thesis by (rule routeLess_both_empty)
    next
      case nb: False
      show ?thesis
      proof (cases "Path_rt b = ''/''")
        case True
        from H ea True show ?thesis by (rule routeLess_empty_root)
      next
        case False
        from wb nb have "take 1 (Path_rt b) = ''/''" by (simp add: wellFormedPath_def)
        from slash_less[OF this False] have 1: "''/'' < Path_rt b" .
        have 2: "[] < Path_rt b" using nb by (cases "Path_rt b") auto
        from less_not_sym_string[OF 1] have 3: "\<not> Path_rt b < ''/''" "Path_rt b \<noteq> ''/''" by simp_all
        from H ea nb 1 2 3 show ?thesis by (rule routeLess_empty_other)
      qed
    qed
  next
    case na: False
    show ?thesis
    proof (cases "Path_rt b = []")
      case eb: True
      show ?thesis
      proof (cases "Path_rt a = ''/''")
        case True
        from H True eb show ?thesis by (rule routeLess_root_empty)
      next
        case False
        from wa na have "take 1 (Path_rt a) = ''/''" by (simp add: wellFormedPath_def)
        from slash_less[OF this False] have 1: "''/'' < Path_rt a" .
        from H eb na False 1 show ?thesis by (rule routeLess_other_empty)
      qed
    next
      case False
      from H False na show ?thesis by (rule routeLess_both_nonempty)
    qed
  qed
qed

lemma routeOrdered_total: "routeOrdered a b \<or> routeOrdered b a"
  unfolding routeOrdered_def by (metis not_less_iff_gr_or_eq linear)


lemma routeOrdered_trans: "routeOrdered a b \<Longrightarrow> routeOrdered b c \<Longrightarrow> routeOrdered a c"
proof -
  assume ab: "routeOrdered a b" and bc: "routeOrdered b c"
  have h: "Host a \<le> Host b" "Host b \<le> Host c"
    using ab bc by (auto simp: routeOrdered_def)
  show ?thesis
  proof (cases "Host a < Host c")
    case True
    then show ?thesis by (simp add: routeOrdered_def)
  next
    case False
    with h have e: "Host a = Host b" "Host b = Host c" by auto
    from ab e have p1: "normPath a < normPath b
        \<or> (normPath a = normPath b \<and> CreationTimestamp a \<le> CreationTimestamp b)"
      by (simp add: routeOrdered_def)
    from bc e have p2: "normPath b < normPath c
        \<or> (normPath b = normPath c \<and> CreationTimestamp b \<le> CreationTimestamp c)"
      by (simp add: routeOrdered_def)
    from p1 p2 have "normPath a < normPath c
        \<or> (normPath a = normPath c \<and> CreationTimestamp a \<le> CreationTimestamp c)"
      by (metis order.strict_trans order_trans)
    with e show ?thesis by (simp add: routeOrdered_def)
  qed
qed

text \<open>
  Claim C8, as amended. \<open>getOrderedRoutes\<close> returns the routes of the namespace (the
  whole cache for the empty namespace), each as often as the cache holds it. When the
  paths are empty or begin with a slash, the result is sorted by host ascending; for
  equal hosts by path ascending, the empty path counted as the root path (so creation
  time decides between an empty and a root path, not between an empty or root path and
  any other path); for equal paths by creation time ascending.
\<close>

theorem getOrderedRoutes_sorted:
  assumes c: "routeCache e namespace = Some cache"
    and wf: "\<forall>r\<in>set cache. wellFormedPath r"
  shows "mset (getOrderedRoutes e namespace)
           = mset (if namespace = [] then cache
                   else filter (\<lambda>rt. Namespace_rt rt = namespace) cache)
       \<and> sorted_wrt routeOrdered (getOrderedRoutes e namespace)"
proof -
  let ?rs = "if namespace = [] then cache else filter (\<lambda>rt. Namespace_rt rt = namespace) cache"
  have g: "getOrderedRoutes e namespace = sortSlice routeLess ?rs"
    using c by (simp add: getOrderedRoutes_def)
  have P: "\<forall>x\<in>set ?rs. wellFormedPath x" using wf by auto
  have asym: "\<And>a b. wellFormedPath a \<Longrightarrow> wellFormedPath b \<Longrightarrow> routeLess a b \<Longrightarrow> \<not> routeLess b a"
  proof -
    fix a b assume w: "wellFormedPath a" "wellFormedPath b" and l: "routeLess a b"
    from l have "\<not> routeOrdered b a" using routeLess_iff[OF w] by simp
    with routeOrdered_total[of a b] have "routeOrdered a b" by simp
    then show "\<not> routeLess b a" using routeLess_iff[OF w(2) w(1)] by simp
  qed
  have trans: "\<And>a b c. wellFormedPath a \<Longrightarrow> wellFormedPath b \<Longrightarrow> wellFormedPath c
       \<Longrightarrow> \<not> routeLess a b \<Longrightarrow> \<not> routeLess b c \<Longrightarrow> \<not> routeLess a c"
  proof -
    fix a b c assume w: "wellFormedPath a" "wellFormedPath b" "wellFormedPath c"
      and l: "\<not> routeLess a b" "\<not> routeLess b c"
    from l(1) have 1: "routeOrdered b a" using routeLess_iff[OF w(1) w(2)] by simp
    from l(2) have 2: "routeOrdered c b" using routeLess_iff[OF w(2) w(3)] by simp
    from routeOrdered_trans[OF 2 1] show "\<not> routeLess a c"
      using routeLess_iff[OF w(1) w(3)] by simp
  qed
  have s: "sorted_wrt (\<lambda>a b. \<not> routeLess b a) (sortSlice routeLess ?rs)"
    by (rule sorted_sortSlice[where P = wellFormedPath, OF asym trans P])
  have inP: "\<forall>x\<in>set (sortSlice routeLess ?rs). wellFormedPath x"
    using P by (metis mset_sortSlice set_mset_mset)
  have "sorted_wrt routeOrdered (sortSlice routeLess ?rs)"
    by (rule sorted_wrt_mono_rel[OF _ s]) (use inP in \<open>simp add: routeLess_iff\<close>)
  then show ?thesis unfolding g by (simp add: mset_sortSlice)
qed

theorem getOrderedRoutes_sorted_witness:
  "getOrderedRoutes
     (exEnv [exRoute ''r2'' ''b.com'' ''/x'' 2 None, exRoute ''r1'' ''a.com'' ''/'' 5 None,
             exRoute ''r3'' ''a.com'' [] 1 None]) ''ns1''
   = [exRoute ''r3'' ''a.com'' [] 1 None, exRoute ''r1'' ''a.com'' ''/'' 5 None,
      exRoute ''r2'' ''b.com'' ''/x'' 2 None]
   \<and> sorted_wrt routeOrdered
       (getOrderedRoutes
         (exEnv [exRoute ''r2'' ''b.com'' ''/x'' 2 None, exRoute ''r1'' ''a.com'' ''/'' 5 None,
                 exRoute ''r3'' ''a.com'' [] 1 None]) ''ns1'')"
proof -
  let ?cache = "[exRoute ''r2'' ''b.com'' ''/x'' 2 None, exRoute ''r1'' ''a.com'' ''/'' 5 None,
             exRoute ''r3'' ''a.com'' [] 1 None]"
  have c: "routeCache (exEnv ?cache) ''ns1'' = Some ?cache" by (simp add: exEnv_def)
  have wf: "\<forall>r\<in>set ?cache. wellFormedPath r" by (simp add: wellFormedPath_def exRoute_def)
  have v: "getOrderedRoutes (exEnv ?cache) ''ns1''
     = [exRoute ''r3'' ''a.com'' [] 1 None, exRoute ''r1'' ''a.com'' ''/'' 5 None,
        exRoute ''r2'' ''b.com'' ''/x'' 2 None]"
    by (simp add: getOrderedRoutes_def exEnv_def sortSlice_def routeLess_def exRoute_def)
  from getOrderedRoutes_sorted[OF c wf] v show ?thesis by simp
qed

text \<open>
  The claim as stated fails for an empty path next to a path other than the root: the
  route with the empty path comes first although it was created later.
\<close>

theorem getOrderedRoutes_counterexample:
  "getOrderedRoutes
     (exEnv [exRoute ''r1'' ''a.com'' ''/x'' 1 None, exRoute ''r2'' ''a.com'' [] 2 None]) ''ns1''
   = [exRoute ''r2'' ''a.com'' [] 2 None, exRoute ''r1'' ''a.com'' ''/x'' 1 None]"
  by (simp add: getOrderedRoutes_def exEnv_def sortSlice_def routeLess_def exRoute_def)


section \<open>Host-path claims\<close>

lemma set_sortSlice: "set (sortSlice lt xs) = set xs"
  by (metis mset_sortSlice set_mset_mset)

lemma sortSlice_routeLess_ordered:
  assumes P: "\<forall>x\<in>set rs. wellFormedPath x"
  shows "sorted_wrt routeOrdered (sortSlice routeLess rs)"
proof -
  have asym: "\<And>a b. wellFormedPath a \<Longrightarrow> wellFormedPath b \<Longrightarrow> routeLess a b \<Longrightarrow> \<not> routeLess b a"
  proof -
    fix a b assume w: "wellFormedPath a" "wellFormedPath b" and l: "routeLess a b"
    from l have "\<not> routeOrdered b a" using routeLess_iff[OF w] by simp
    with routeOrdered_total[of a b] have "routeOrdered a b" by simp
    then show "\<not> routeLess b a" using routeLess_iff[OF w(2) w(1)] by simp
  qed
  have trans: "\<And>a b c. wellFormedPath a \<Longrightarrow> wellFormedPath b \<Longrightarrow> wellFormedPath c
       \<Longrightarrow> \<not> routeLess a b \<Longrightarrow> \<not> routeLess b c \<Longrightarrow> \<not> routeLess a c"
  proof -
    fix a b c assume w: "wellFormedPath a" "wellFormedPath b" "wellFormedPath c"
      and l: "\<not> routeLess a b" "\<not> routeLess b c"
    from l(1) have 1: "routeOrdered b a" using routeLess_iff[OF w(1) w(2)] by simp
    from l(2) have 2: "routeOrdered c b" using routeLess_iff[OF w(2) w(3)] by simp
    from routeOrdered_trans[OF 2 1] show "\<not> routeLess a c"
      using routeLess_iff[OF w(1) w(3)] by simp
  qed
  have s: "sorted_wrt (\<lambda>a b. \<not> routeLess b a) (sortSlice routeLess rs)"
    by (rule sorted_sortSlice[where P = wellFormedPath, OF asym trans P])
  have inP: "\<forall>x\<in>set (sortSlice routeLess rs). wellFormedPath x"
    using P by (simp add: set_sortSlice)
  show ?thesis
    by (rule sorted_wrt_mono_rel[OF _ s]) (use inP in \<open>simp add: routeLess_iff\<close>)
qed

lemma getOrderedRoutes_set:
  "set (getOrderedRoutes e ns) \<subseteq> {r. ns = [] \<or> Namespace_rt r = ns}"
  by (auto simp: getOrderedRoutes_def set_sortSlice split: option.splits)

lemma getOrderedRoutes_cache:
  assumes "routeCache e ns = Some cache"
  shows "set (getOrderedRoutes e ns) = {r \<in> set cache. ns = [] \<or> Namespace_rt r = ns}"
  using assms by (auto simp: getOrderedRoutes_def set_sortSlice)

lemma getOrderedRoutes_ordered:
  assumes "routeCache e ns = Some cache" "\<forall>r\<in>set cache. wellFormedPath r"
  shows "sorted_wrt routeOrdered (getOrderedRoutes e ns)"
proof -
  have "getOrderedRoutes e ns = sortSlice routeLess
          (if ns = [] then cache else filter (\<lambda>rt. Namespace_rt rt = ns) cache)"
    using assms(1) by (simp add: getOrderedRoutes_def)
  moreover have "\<forall>x\<in>set (if ns = [] then cache else filter (\<lambda>rt. Namespace_rt rt = ns) cache).
      wellFormedPath x" using assms(2) by auto
  ultimately show ?thesis by (simp only: sortSlice_routeLess_ordered)
qed

lemma routeVerdict_claimed:
  "hostPathMap (hostPathKey r) = Some t \<Longrightarrow> t < CreationTimestamp r
   \<Longrightarrow> routeVerdict e hostPathMap r spec = Inr (Invalid ''HostAlreadyClaimed'')"
  by (simp add: routeVerdict_def Let_def)

lemma routeVerdict_Valid_not_claimed:
  "routeVerdict e hostPathMap r spec = Inr Valid \<Longrightarrow> hostPathMap (hostPathKey r) = Some t
   \<Longrightarrow> CreationTimestamp r \<le> t"
  by (rule ccontr) (simp add: routeVerdict_def Let_def)

lemma updateHostPathMap_key: "updateHostPathMap m ts k k = Some ts"
  by (simp add: updateHostPathMap_def)

lemma routesLoop_append:
  "routesLoop e spec (xs @ ys) acc =
     (case routesLoop e spec xs acc of Inl f \<Rightarrow> Inl f | Inr acc' \<Rightarrow> routesLoop e spec ys acc')"
proof (induction xs arbitrary: acc)
  case Nil
  then show ?case by simp
next
  case (Cons x xs)
  obtain c a where acc: "acc = (c, a)" by (cases acc)
  show ?case unfolding acc
    by (simp add: Cons.IH split: sum.splits prod.splits)
qed

lemma routesLoop_step_accept:
  assumes "routeVerdict e (processedHostPathMap c) r spec = Inr Valid"
  shows "routesLoop e spec (r # rest) (c, a) =
     routesLoop e spec rest
       (c\<lparr>processedHostPathMap :=
            updateHostPathMap (processedHostPathMap c) (CreationTimestamp r) (hostPathKey r)\<rparr>,
        a @ [r])"
  using assms by (simp add: checkValidRoute_def)

lemma routesLoop_step_reject:
  assumes "routeVerdict e (processedHostPathMap c) r spec = Inr (Invalid reason)"
  shows "routesLoop e spec (r # rest) (c, a) =
     routesLoop e spec rest (c\<lparr>admitStatus := admitStatus c @ [(rscKey r, reason)]\<rparr>, a)"
  using assms by (simp add: checkValidRoute_def)

lemma routesLoop_step_fault:
  assumes "routeVerdict e (processedHostPathMap c) r spec = Inl f"
  shows "routesLoop e spec (r # rest) (c, a) = Inl f"
  using assms by (simp add: checkValidRoute_def)

lemma hostPathKey_normPath: "hostPathKey r = Host r @ normPath r"
  by (simp add: hostPathKey_def normPath_def)

lemma routeVerdict_split:
  "routeVerdict e m r spec =
     (if \<exists>t. m (hostPathKey r) = Some t \<and> t < CreationTimestamp r
      then Inr (Invalid ''HostAlreadyClaimed'')
      else routeVerdict e Map.empty r spec)"
  by (simp add: routeVerdict_def Let_def split: option.splits)

lemma routesLoop_Cons_cases:
  assumes "routesLoop e spec (r # rest) (c, a) = Inr (c', a')"
  obtains (accept) "routeVerdict e (processedHostPathMap c) r spec = Inr Valid"
      "routesLoop e spec rest
         (c\<lparr>processedHostPathMap :=
              updateHostPathMap (processedHostPathMap c) (CreationTimestamp r) (hostPathKey r)\<rparr>,
          a @ [r]) = Inr (c', a')"
    | (reject) reason where "routeVerdict e (processedHostPathMap c) r spec = Inr (Invalid reason)"
      "routesLoop e spec rest (c\<lparr>admitStatus := admitStatus c @ [(rscKey r, reason)]\<rparr>, a)
         = Inr (c', a')"
proof (cases "routeVerdict e (processedHostPathMap c) r spec")
  case (Inl f)
  from routesLoop_step_fault[OF Inl] assms show ?thesis by simp
next
  case (Inr v)
  show ?thesis
  proof (cases v)
    case Valid
    with Inr have v: "routeVerdict e (processedHostPathMap c) r spec = Inr Valid" by simp
    from assms have "routesLoop e spec rest
         (c\<lparr>processedHostPathMap :=
              updateHostPathMap (processedHostPathMap c) (CreationTimestamp r) (hostPathKey r)\<rparr>,
          a @ [r]) = Inr (c', a')"
      by (simp only: routesLoop_step_accept[OF v])
    with v show ?thesis by (rule accept)
  next
    case (Invalid reason)
    with Inr have v: "routeVerdict e (processedHostPathMap c) r spec = Inr (Invalid reason)" by simp
    from assms have "routesLoop e spec rest
        (c\<lparr>admitStatus := admitStatus c @ [(rscKey r, reason)]\<rparr>, a) = Inr (c', a')"
      by (simp only: routesLoop_step_reject[OF v])
    with v show ?thesis by (rule reject)
  qed
qed

lemma routesLoop_grows:
  "routesLoop e spec rs (c, a) = Inr (c', a')
   \<Longrightarrow> set a \<subseteq> set a' \<and> set a' \<subseteq> set a \<union> set rs \<and> set (admitStatus c) \<subseteq> set (admitStatus c')"
proof (induction rs arbitrary: c a)
  case Nil
  then show ?case by simp
next
  case (Cons r rs)
  from Cons.prems show ?case
  proof (cases rule: routesLoop_Cons_cases)
    case accept
    from Cons.IH[OF accept(2)] show ?thesis by auto
  next
    case (reject reason)
    from Cons.IH[OF reject(2)] show ?thesis by auto
  qed
qed

lemma routesLoop_not_older:
  assumes "\<forall>x\<in>set rs. hostPathKey x = k \<longrightarrow> T \<le> CreationTimestamp x"
    and "\<forall>t. processedHostPathMap c k = Some t \<longrightarrow> T \<le> t"
    and "routesLoop e spec rs (c, a) = Inr (c', a')"
  shows "\<forall>t. processedHostPathMap c' k = Some t \<longrightarrow> T \<le> t"
  using assms
proof (induction rs arbitrary: c a)
  case Nil
  then show ?case by simp
next
  case (Cons r rs)
  have rest: "\<forall>x\<in>set rs. hostPathKey x = k \<longrightarrow> T \<le> CreationTimestamp x"
    using Cons.prems(1) by simp
  from Cons.prems(3) show ?case
  proof (cases rule: routesLoop_Cons_cases)
    case accept
    have "\<forall>t. processedHostPathMap
             (c\<lparr>processedHostPathMap :=
              updateHostPathMap (processedHostPathMap c) (CreationTimestamp r) (hostPathKey r)\<rparr>) k
            = Some t \<longrightarrow> T \<le> t"
      using Cons.prems(1,2) by (auto simp: updateHostPathMap_def split: if_splits)
    from Cons.IH[OF rest this accept(2)] show ?thesis .
  next
    case (reject reason)
    have "\<forall>t. processedHostPathMap (c\<lparr>admitStatus := admitStatus c @ [(rscKey r, reason)]\<rparr>) k
            = Some t \<longrightarrow> T \<le> t"
      using Cons.prems(2) by simp
    from Cons.IH[OF rest this reject(2)] show ?thesis .
  qed
qed

lemma routesLoop_block_rejects:
  assumes "sorted_wrt routeOrdered rs"
    and "\<forall>x\<in>set rs. routeOrdered r1 x"
    and "Host r1 = Host r2" and "normPath r1 = normPath r2"
    and "processedHostPathMap c (hostPathKey r2) = Some t" and "t < CreationTimestamp r2"
    and "routesLoop e spec rs (c, a) = Inr (c', a')"
    and "r2 \<notin> set a"
  shows "r2 \<notin> set a'
       \<and> (r2 \<in> set rs \<longrightarrow> (rscKey r2, ''HostAlreadyClaimed'') \<in> set (admitStatus c'))"
  using assms
proof (induction rs arbitrary: c a t)
  case Nil
  then show ?case by simp
next
  case (Cons x rs)
  have srt: "sorted_wrt routeOrdered rs" and after: "\<forall>y\<in>set rs. routeOrdered x y"
    using Cons.prems(1) by simp_all
  have r1x: "routeOrdered r1 x" and r1rs: "\<forall>y\<in>set rs. routeOrdered r1 y"
    using Cons.prems(2) by simp_all
  show ?case
  proof (cases "Host x = Host r2 \<and> normPath x = normPath r2")
    case True
    then have k: "hostPathKey x = hostPathKey r2" by (simp add: hostPathKey_normPath)
    from Cons.prems(7) show ?thesis
    proof (cases rule: routesLoop_Cons_cases)
      case accept
      from routeVerdict_Valid_not_claimed[OF accept(1)] Cons.prems(5) k
      have le: "CreationTimestamp x \<le> t" by simp
      with Cons.prems(6) have ne: "x \<noteq> r2" by auto
      have m: "processedHostPathMap
             (c\<lparr>processedHostPathMap :=
              updateHostPathMap (processedHostPathMap c) (CreationTimestamp x) (hostPathKey x)\<rparr>)
             (hostPathKey r2) = Some (CreationTimestamp x)"
        using k by (simp add: updateHostPathMap_key)
      have lt: "CreationTimestamp x < CreationTimestamp r2" using le Cons.prems(6) by simp
      have na: "r2 \<notin> set (a @ [x])" using ne Cons.prems(8) by simp
      from Cons.IH[OF srt r1rs Cons.prems(3) Cons.prems(4) m lt accept(2) na] ne
      show ?thesis by simp
    next
      case (reject reason)
      let ?c = "c\<lparr>admitStatus := admitStatus c @ [(rscKey x, reason)]\<rparr>"
      have m: "processedHostPathMap ?c (hostPathKey r2) = Some t" using Cons.prems(5) by simp
      note ih = Cons.IH[OF srt r1rs Cons.prems(3) Cons.prems(4) m Cons.prems(6) reject(2) Cons.prems(8)]
      have "x = r2 \<Longrightarrow> (rscKey r2, ''HostAlreadyClaimed'') \<in> set (admitStatus c')"
      proof -
        assume x: "x = r2"
        have "routeVerdict e (processedHostPathMap c) r2 spec = Inr (Invalid ''HostAlreadyClaimed'')"
          using Cons.prems(5) Cons.prems(6) by (rule routeVerdict_claimed)
        with reject(1) x have "reason = ''HostAlreadyClaimed''" by simp
        with x have "(rscKey r2, ''HostAlreadyClaimed'') \<in> set (admitStatus ?c)" by simp
        with routesLoop_grows[OF reject(2)] show ?thesis by blast
      qed
      with ih show ?thesis by auto
    qed
  next
    case False
    have lt: "Host r2 < Host x \<or> (Host r2 = Host x \<and> normPath r2 < normPath x)"
      using r1x False Cons.prems(3) Cons.prems(4) by (auto simp: routeOrdered_def)
    have "\<forall>y\<in>set rs. Host r2 < Host y \<or> (Host r2 = Host y \<and> normPath r2 < normPath y)"
    proof
      fix y assume "y \<in> set rs"
      with after have "routeOrdered x y" by simp
      with lt show "Host r2 < Host y \<or> (Host r2 = Host y \<and> normPath r2 < normPath y)"
        by (auto simp: routeOrdered_def)
    qed
    with lt have "r2 \<notin> set (x # rs)" by auto
    with routesLoop_grows[OF Cons.prems(7)] Cons.prems(8) show ?thesis by auto
  qed
qed

lemma routesLoop_append_cases:
  assumes "routesLoop e spec (xs @ ys) acc = Inr acc''"
  obtains acc' where "routesLoop e spec xs acc = Inr acc'" "routesLoop e spec ys acc' = Inr acc''"
  using assms by (simp add: routesLoop_append split: sum.splits)

lemma routesLoop_pass_rejects:
  assumes srt: "sorted_wrt routeOrdered rs"
    and r1: "r1 \<in> set rs"
    and host: "Host r1 = Host r2" and path: "normPath r1 = normPath r2"
    and ts: "CreationTimestamp r1 < CreationTimestamp r2"
    and valid: "routeVerdict e Map.empty r1 spec = Inr Valid"
    and run: "routesLoop e spec rs (c, a) = Inr (c', a')"
    and na: "r2 \<notin> set a"
  shows "r2 \<notin> set a'
       \<and> (r2 \<in> set rs \<longrightarrow> (rscKey r2, ''HostAlreadyClaimed'') \<in> set (admitStatus c'))"
proof -
  from split_list_first[OF r1] obtain pre rest where
    rs: "rs = pre @ r1 # rest" and first: "r1 \<notin> set pre" by blast
  from srt rs have s1: "sorted_wrt routeOrdered rest"
    and s2: "\<forall>y\<in>set rest. routeOrdered r1 y"
    and s3: "\<forall>x\<in>set pre. routeOrdered x r1"
    by (simp_all add: sorted_wrt_append)
  have k: "hostPathKey r1 = hostPathKey r2" using host path by (simp add: hostPathKey_normPath)
  have npre: "r2 \<notin> set pre"
  proof
    assume "r2 \<in> set pre"
    with s3 have "routeOrdered r2 r1" by simp
    with host path ts show False by (simp add: routeOrdered_def)
  qed
  have ne: "r1 \<noteq> r2" using ts by auto
  from run rs obtain c1 a1 where
    p: "routesLoop e spec pre (c, a) = Inr (c1, a1)"
    and q: "routesLoop e spec (r1 # rest) (c1, a1) = Inr (c', a')"
    by (metis routesLoop_append_cases surj_pair)
  from routesLoop_grows[OF p] na npre have na1: "r2 \<notin> set a1" by auto
  from q show ?thesis
  proof (cases rule: routesLoop_Cons_cases)
    case accept
    have m: "processedHostPathMap
             (c1\<lparr>processedHostPathMap :=
              updateHostPathMap (processedHostPathMap c1) (CreationTimestamp r1) (hostPathKey r1)\<rparr>)
             (hostPathKey r2) = Some (CreationTimestamp r1)"
      using k by (simp add: updateHostPathMap_key)
    have n: "r2 \<notin> set (a1 @ [r1])" using na1 ne by simp
    from routesLoop_block_rejects[OF s1 s2 host path m ts accept(2) n]
    show ?thesis using rs npre ne by simp
  next
    case (reject reason)
    from reject(1) valid obtain t where
      t: "processedHostPathMap c1 (hostPathKey r1) = Some t" "t < CreationTimestamp r1"
      by (subst (asm) routeVerdict_split) (auto split: if_splits)
    have m: "processedHostPathMap (c1\<lparr>admitStatus := admitStatus c1 @ [(rscKey r1, reason)]\<rparr>)
               (hostPathKey r2) = Some t"
      using t(1) k by simp
    have lt: "t < CreationTimestamp r2" using t(2) ts by simp
    from routesLoop_block_rejects[OF s1 s2 host path m lt reject(2) na1]
    show ?thesis using rs npre ne by simp
  qed
qed

lemma routesLoop_pass_accepts:
  assumes r1: "r1 \<in> set rs"
    and valid: "routeVerdict e Map.empty r1 spec = Inr Valid"
    and least: "\<forall>x\<in>set rs. hostPathKey x = hostPathKey r1
                  \<longrightarrow> CreationTimestamp r1 \<le> CreationTimestamp x"
    and init: "\<forall>t. processedHostPathMap c (hostPathKey r1) = Some t \<longrightarrow> CreationTimestamp r1 \<le> t"
    and run: "routesLoop e spec rs (c, a) = Inr (c', a')"
  shows "r1 \<in> set a'"
proof -
  from split_list[OF r1] obtain pre rest where rs: "rs = pre @ r1 # rest" by blast
  from run rs obtain c1 a1 where
    p: "routesLoop e spec pre (c, a) = Inr (c1, a1)"
    and q: "routesLoop e spec (r1 # rest) (c1, a1) = Inr (c', a')"
    by (metis routesLoop_append_cases surj_pair)
  have "\<forall>x\<in>set pre. hostPathKey x = hostPathKey r1
                  \<longrightarrow> CreationTimestamp r1 \<le> CreationTimestamp x"
    using least rs by simp
  from routesLoop_not_older[OF this init p]
  have inv: "\<forall>t. processedHostPathMap c1 (hostPathKey r1) = Some t \<longrightarrow> CreationTimestamp r1 \<le> t" .
  have v: "routeVerdict e (processedHostPathMap c1) r1 spec = Inr Valid"
    using inv valid by (subst routeVerdict_split) auto
  from q show ?thesis
  proof (cases rule: routesLoop_Cons_cases)
    case accept
    from routesLoop_grows[OF accept(2)] show ?thesis by auto
  next
    case (reject reason)
    with v show ?thesis by simp
  qed
qed

lemma namespacesLoop_Cons_cases:
  assumes "namespacesLoop e spec (n # rest) acc = Inr acc''"
  obtains acc' where "routesLoop e spec (getOrderedRoutes e n) acc = Inr acc'"
    "namespacesLoop e spec rest acc' = Inr acc''"
  using assms by (simp split: sum.splits)

lemma namespacesLoop_grows:
  "namespacesLoop e spec nss (c, a) = Inr (c', a')
   \<Longrightarrow> set a \<subseteq> set a' \<and> set (admitStatus c) \<subseteq> set (admitStatus c')"
proof (induction nss arbitrary: c a)
  case Nil
  then show ?case by simp
next
  case (Cons n nss)
  from Cons.prems obtain c1 a1 where
    p: "routesLoop e spec (getOrderedRoutes e n) (c, a) = Inr (c1, a1)"
    and q: "namespacesLoop e spec nss (c1, a1) = Inr (c', a')"
    by (metis namespacesLoop_Cons_cases surj_pair)
  from routesLoop_grows[OF p] Cons.IH[OF q] show ?case by blast
qed

lemma namespacesLoop_not_older:
  assumes "\<forall>n\<in>set nss. \<forall>x\<in>set (getOrderedRoutes e n).
             hostPathKey x = k \<longrightarrow> T \<le> CreationTimestamp x"
    and "\<forall>t. processedHostPathMap c k = Some t \<longrightarrow> T \<le> t"
    and "namespacesLoop e spec nss (c, a) = Inr (c', a')"
  shows "\<forall>t. processedHostPathMap c' k = Some t \<longrightarrow> T \<le> t"
  using assms
proof (induction nss arbitrary: c a)
  case Nil
  then show ?case by simp
next
  case (Cons n nss)
  from Cons.prems(3) obtain c1 a1 where
    p: "routesLoop e spec (getOrderedRoutes e n) (c, a) = Inr (c1, a1)"
    and q: "namespacesLoop e spec nss (c1, a1) = Inr (c', a')"
    by (metis namespacesLoop_Cons_cases surj_pair)
  have h: "\<forall>x\<in>set (getOrderedRoutes e n). hostPathKey x = k \<longrightarrow> T \<le> CreationTimestamp x"
    and rest: "\<forall>n\<in>set nss. \<forall>x\<in>set (getOrderedRoutes e n).
             hostPathKey x = k \<longrightarrow> T \<le> CreationTimestamp x"
    using Cons.prems(1) by simp_all
  from Cons.IH[OF rest routesLoop_not_older[OF h Cons.prems(2) p] q] show ?case .
qed

lemma namespacesLoop_rejects:
  assumes cache: "routeCache e ns = Some cache"
    and wf: "\<forall>r\<in>set cache. wellFormedPath r"
    and r1: "r1 \<in> set cache" "Namespace_rt r1 = ns"
    and r2: "r2 \<in> set cache" "Namespace_rt r2 = ns"
    and host: "Host r1 = Host r2" and path: "normPath r1 = normPath r2"
    and ts: "CreationTimestamp r1 < CreationTimestamp r2"
    and valid: "routeVerdict e Map.empty r1 spec = Inr Valid"
    and nss: "[] \<notin> set nss"
    and run: "namespacesLoop e spec nss (c, a) = Inr (c', a')"
    and na: "r2 \<notin> set a"
  shows "r2 \<notin> set a'
       \<and> (ns \<in> set nss \<or> (rscKey r2, ''HostAlreadyClaimed'') \<in> set (admitStatus c)
            \<longrightarrow> (rscKey r2, ''HostAlreadyClaimed'') \<in> set (admitStatus c'))"
  using nss run na
proof (induction nss arbitrary: c a)
  case Nil
  then show ?case by simp
next
  case (Cons n nss)
  from Cons.prems(2) obtain c1 a1 where
    p: "routesLoop e spec (getOrderedRoutes e n) (c, a) = Inr (c1, a1)"
    and q: "namespacesLoop e spec nss (c1, a1) = Inr (c', a')"
    by (metis namespacesLoop_Cons_cases surj_pair)
  have n0: "n \<noteq> []" and nss: "[] \<notin> set nss" using Cons.prems(1) by auto
  have step: "r2 \<notin> set a1
       \<and> (n = ns \<longrightarrow> (rscKey r2, ''HostAlreadyClaimed'') \<in> set (admitStatus c1))"
  proof (cases "n = ns")
    case True
    have s: "sorted_wrt routeOrdered (getOrderedRoutes e ns)"
      using cache wf by (rule getOrderedRoutes_ordered)
    have m1: "r1 \<in> set (getOrderedRoutes e ns)" and m2: "r2 \<in> set (getOrderedRoutes e ns)"
      using r1 r2 by (simp_all add: getOrderedRoutes_cache[OF cache])
    from p True have p': "routesLoop e spec (getOrderedRoutes e ns) (c, a) = Inr (c1, a1)" by simp
    from routesLoop_pass_rejects[OF s m1 host path ts valid p' Cons.prems(3)] m2 True
    show ?thesis by simp
  next
    case False
    with n0 r2(2) getOrderedRoutes_set[of e n] have "r2 \<notin> set (getOrderedRoutes e n)" by auto
    with routesLoop_grows[OF p] Cons.prems(3) False show ?thesis by auto
  qed
  from routesLoop_grows[OF p]
  have g: "set (admitStatus c) \<subseteq> set (admitStatus c1)" by simp
  from Cons.IH[OF nss q] step g show ?case by auto
qed

lemma namespacesLoop_accepts:
  assumes r1: "\<exists>n\<in>set nss. r1 \<in> set (getOrderedRoutes e n)"
    and valid: "routeVerdict e Map.empty r1 spec = Inr Valid"
    and least: "\<forall>n\<in>set nss. \<forall>x\<in>set (getOrderedRoutes e n).
             hostPathKey x = hostPathKey r1 \<longrightarrow> CreationTimestamp r1 \<le> CreationTimestamp x"
    and init: "\<forall>t. processedHostPathMap c (hostPathKey r1) = Some t \<longrightarrow> CreationTimestamp r1 \<le> t"
    and run: "namespacesLoop e spec nss (c, a) = Inr (c', a')"
  shows "r1 \<in> set a'"
  using r1 least init run
proof (induction nss arbitrary: c a)
  case Nil
  then show ?case by simp
next
  case (Cons n nss)
  from Cons.prems(4) obtain c1 a1 where
    p: "routesLoop e spec (getOrderedRoutes e n) (c, a) = Inr (c1, a1)"
    and q: "namespacesLoop e spec nss (c1, a1) = Inr (c', a')"
    by (metis namespacesLoop_Cons_cases surj_pair)
  have h: "\<forall>x\<in>set (getOrderedRoutes e n). hostPathKey x = hostPathKey r1
             \<longrightarrow> CreationTimestamp r1 \<le> CreationTimestamp x"
    and rest: "\<forall>n\<in>set nss. \<forall>x\<in>set (getOrderedRoutes e n).
             hostPathKey x = hostPathKey r1 \<longrightarrow> CreationTimestamp r1 \<le> CreationTimestamp x"
    using Cons.prems(2) by simp_all
  show ?case
  proof (cases "r1 \<in> set (getOrderedRoutes e n)")
    case True
    from routesLoop_pass_accepts[OF True valid h Cons.prems(3) p] namespacesLoop_grows[OF q]
    show ?thesis by auto
  next
    case False
    with Cons.prems(1) have ex: "\<exists>n\<in>set nss. r1 \<in> set (getOrderedRoutes e n)" by simp
    from Cons.IH[OF ex rest routesLoop_not_older[OF h Cons.prems(3) p] q] show ?thesis .
  qed
qed

text \<open>
  Claim C1, as amended. Take two routes of one namespace of the group, with equal host
  and equal normalized path, the first created strictly before the second, the first
  passing the TLS and service checks of \<open>checkValidRoute\<close>, the paths in that namespace
  empty or beginning with a slash. Then \<open>getGroupedRoutes\<close> does not accept the second
  and rejects it with reason \<open>HostAlreadyClaimed\<close>. When moreover no route of the
  group's namespaces with that key is older than the first and the host-path map holds
  no older claim for the key, the first is accepted.
\<close>

theorem getGroupedRoutes_later_rejected:
  assumes entry: "map_of (extdSpecMap (resources ctlr)) routeGroup = Some entry"
    and nss: "[] \<notin> set (elems (namespaces entry))" "ns \<in> set (elems (namespaces entry))"
    and cache: "routeCache e ns = Some cache"
    and wf: "\<forall>r\<in>set cache. wellFormedPath r"
    and r1: "r1 \<in> set cache" "Namespace_rt r1 = ns"
    and r2: "r2 \<in> set cache" "Namespace_rt r2 = ns"
    and host: "Host r1 = Host r2" and path: "normPath r1 = normPath r2"
    and ts: "CreationTimestamp r1 < CreationTimestamp r2"
    and valid: "routeVerdict e Map.empty r1 spec = Inr Valid"
    and run: "getGroupedRoutes e ctlr routeGroup spec = Inr (ctlr', accepted)"
  shows "r2 \<notin> set accepted
       \<and> (rscKey r2, ''HostAlreadyClaimed'') \<in> set (admitStatus ctlr')
       \<and> ((\<forall>n\<in>set (elems (namespaces entry)). \<forall>x\<in>set (getOrderedRoutes e n).
              hostPathKey x = hostPathKey r1 \<longrightarrow> CreationTimestamp r1 \<le> CreationTimestamp x)
           \<and> (\<forall>t. processedHostPathMap ctlr (hostPathKey r1) = Some t
                  \<longrightarrow> CreationTimestamp r1 \<le> t)
           \<longrightarrow> r1 \<in> set accepted)"
proof -
  from run entry have l: "namespacesLoop e spec (elems (namespaces entry)) (ctlr, []) = Inr (ctlr', accepted)"
    by (simp add: getGroupedRoutes_def)
  have e: "r2 \<notin> set []" by simp
  from namespacesLoop_rejects[OF cache wf r1 r2 host path ts valid nss(1) l e] nss(2)
  have a: "r2 \<notin> set accepted" "(rscKey r2, ''HostAlreadyClaimed'') \<in> set (admitStatus ctlr')"
    by simp_all
  have "r1 \<in> set (getOrderedRoutes e ns)"
    using r1 by (simp add: getOrderedRoutes_cache[OF cache])
  with nss(2) have m: "\<exists>n\<in>set (elems (namespaces entry)). r1 \<in> set (getOrderedRoutes e n)"
    by blast
  have "r1 \<in> set accepted"
    if "\<forall>n\<in>set (elems (namespaces entry)). \<forall>x\<in>set (getOrderedRoutes e n).
              hostPathKey x = hostPathKey r1 \<longrightarrow> CreationTimestamp r1 \<le> CreationTimestamp x"
      and "\<forall>t. processedHostPathMap ctlr (hostPathKey r1) = Some t \<longrightarrow> CreationTimestamp r1 \<le> t"
    using namespacesLoop_accepts[OF m valid that l] .
  with a show ?thesis by simp
qed

lemma exRoute_verdict:
  "routeVerdict (exEnv cache) Map.empty (exRoute nm host path ts None) (Some (exSpec vs)) = Inr Valid"
  by (simp add: routeVerdict_def Let_def exEnv_def exRoute_def exSpec_def emptyTLS_def
      getServicePort_def BIGIP_def)

lemma exGrouped_later:
  "getGroupedRoutes
     (exEnv [exRoute ''r2'' ''a.com'' [] 2 None, exRoute ''r1'' ''a.com'' ''/'' 1 None])
     (exController [(''ns1'', exParsed ''ns1'' ''gw'' ''test'')]) ''ns1'' (Some (exSpec ''gw''))
   = Inr ((exController [(''ns1'', exParsed ''ns1'' ''gw'' ''test'')])
            \<lparr>processedHostPathMap := [''a.com/'' \<mapsto> 1],
             admitStatus := [(''ns1/r2'', ''HostAlreadyClaimed'')]\<rparr>,
          [exRoute ''r1'' ''a.com'' ''/'' 1 None])"
  by (simp add: getGroupedRoutes_def exController_def exStore_def exParsed_def elems_def
      getOrderedRoutes_def exEnv_def sortSlice_def routeLess_def exRoute_def checkValidRoute_def
      routeVerdict_def Let_def exSpec_def emptyTLS_def getServicePort_def BIGIP_def
      hostPathKey_def updateHostPathMap_def rscKey_def fun_eq_iff)

theorem getGroupedRoutes_later_rejected_witness:
  "getGroupedRoutes
     (exEnv [exRoute ''r2'' ''a.com'' [] 2 None, exRoute ''r1'' ''a.com'' ''/'' 1 None])
     (exController [(''ns1'', exParsed ''ns1'' ''gw'' ''test'')]) ''ns1'' (Some (exSpec ''gw''))
   = Inr ((exController [(''ns1'', exParsed ''ns1'' ''gw'' ''test'')])
            \<lparr>processedHostPathMap := [''a.com/'' \<mapsto> 1],
             admitStatus := [(''ns1/r2'', ''HostAlreadyClaimed'')]\<rparr>,
          [exRoute ''r1'' ''a.com'' ''/'' 1 None])
   \<and> exRoute ''r2'' ''a.com'' [] 2 None \<notin> set [exRoute ''r1'' ''a.com'' ''/'' 1 None]
   \<and> (rscKey (exRoute ''r2'' ''a.com'' [] 2 None), ''HostAlreadyClaimed'')
        \<in> set [(''ns1/r2'', ''HostAlreadyClaimed'')]
   \<and> exRoute ''r1'' ''a.com'' ''/'' 1 None \<in> set [exRoute ''r1'' ''a.com'' ''/'' 1 None]"
proof -
  let ?r1 = "exRoute ''r1'' ''a.com'' ''/'' 1 None" and ?r2 = "exRoute ''r2'' ''a.com'' [] 2 None"
  let ?cache = "[?r2, ?r1]"
  let ?e = "exEnv ?cache" and ?s = "Some (exSpec ''gw'')"
  let ?c = "exController [(''ns1'', exParsed ''ns1'' ''gw'' ''test'')]"
  have entry: "map_of (extdSpecMap (resources ?c)) ''ns1'' = Some (exParsed ''ns1'' ''gw'' ''test'')"
    by (simp add: exController_def exStore_def)
  have nss: "[] \<notin> set (elems (namespaces (exParsed ''ns1'' ''gw'' ''test'')))"
    "''ns1'' \<in> set (elems (namespaces (exParsed ''ns1'' ''gw'' ''test'')))"
    by (simp_all add: exParsed_def elems_def)
  have cache: "routeCache ?e ''ns1'' = Some ?cache" by (simp add: exEnv_def)
  have wf: "\<forall>r\<in>set ?cache. wellFormedPath r" by (simp add: wellFormedPath_def exRoute_def)
  have r1: "?r1 \<in> set ?cache" "Namespace_rt ?r1 = ''ns1''" by (simp_all add: exRoute_def)
  have r2: "?r2 \<in> set ?cache" "Namespace_rt ?r2 = ''ns1''" by (simp_all add: exRoute_def)
  have host: "Host ?r1 = Host ?r2" and path: "normPath ?r1 = normPath ?r2"
    and ts: "CreationTimestamp ?r1 < CreationTimestamp ?r2"
    by (simp_all add: exRoute_def normPath_def)
  have valid: "routeVerdict ?e Map.empty ?r1 ?s = Inr Valid" by (rule exRoute_verdict)
  have ord: "getOrderedRoutes ?e ''ns1'' = [?r1, ?r2]"
    by (simp add: getOrderedRoutes_def exEnv_def sortSlice_def routeLess_def exRoute_def)
  have least: "\<forall>n\<in>set (elems (namespaces (exParsed ''ns1'' ''gw'' ''test''))).
      \<forall>x\<in>set (getOrderedRoutes ?e n).
        hostPathKey x = hostPathKey ?r1 \<longrightarrow> CreationTimestamp ?r1 \<le> CreationTimestamp x"
    by (simp add: exParsed_def elems_def ord) (simp add: exRoute_def)
  have init: "\<forall>t. processedHostPathMap ?c (hostPathKey ?r1) = Some t \<longrightarrow> CreationTimestamp ?r1 \<le> t"
    by (simp add: exController_def)
  note run = exGrouped_later
  from getGroupedRoutes_later_rejected[OF entry nss cache wf r1 r2 host path ts valid run]
    least init run
  show ?thesis by simp
qed

text \<open>
  The claim as stated fails on three inputs. Two routes of one namespace with one key
  and one creation timestamp are both accepted, the check being a strict comparison. In
  a group of the namespaces \<open>ns2\<close> and \<open>ns1\<close>, walked in this order, the route of
  \<open>ns2\<close> is accepted first and the older route of \<open>ns1\<close> with the same key is
  accepted after it. When the service of the older route is not found, the older route
  is rejected with that reason and the later route is accepted.
\<close>

theorem getGroupedRoutes_claim_counterexample:
  "map_sum id snd
     (getGroupedRoutes
        (exEnv [exRoute ''r1'' ''a.com'' ''/'' 1 None, exRoute ''r2'' ''a.com'' ''/'' 1 None])
        (exController [(''ns1'', exParsed ''ns1'' ''gw'' ''test'')]) ''ns1'' (Some (exSpec ''gw'')))
   = Inr [exRoute ''r1'' ''a.com'' ''/'' 1 None, exRoute ''r2'' ''a.com'' ''/'' 1 None]
   \<and> map_sum id snd
     (getGroupedRoutes
        (exEnv [exRoute ''r1'' ''a.com'' ''/'' 1 None,
                (exRoute ''r2'' ''a.com'' ''/'' 2 None)\<lparr>Namespace_rt := ''ns2''\<rparr>])
        (exController [(''g'', (exParsed ''ns1'' ''gw'' ''test'')\<lparr>namespaces := Some [''ns2'', ''ns1'']\<rparr>)])
        ''g'' (Some (exSpec ''gw'')))
   = Inr [(exRoute ''r2'' ''a.com'' ''/'' 2 None)\<lparr>Namespace_rt := ''ns2''\<rparr>,
          exRoute ''r1'' ''a.com'' ''/'' 1 None]
   \<and> map_sum id snd
     (getGroupedRoutes
        (exEnvNoService
           [(exRoute ''r1'' ''a.com'' ''/'' 1 None)\<lparr>To := ''gone'', TargetPort := None\<rparr>,
            exRoute ''r2'' ''a.com'' ''/'' 2 None])
        (exController [(''ns1'', exParsed ''ns1'' ''gw'' ''test'')]) ''ns1'' (Some (exSpec ''gw'')))
   = Inr [exRoute ''r2'' ''a.com'' ''/'' 2 None]"
proof -
  have 1: "map_sum id snd
     (getGroupedRoutes
        (exEnv [exRoute ''r1'' ''a.com'' ''/'' 1 None, exRoute ''r2'' ''a.com'' ''/'' 1 None])
        (exController [(''ns1'', exParsed ''ns1'' ''gw'' ''test'')]) ''ns1'' (Some (exSpec ''gw'')))
   = Inr [exRoute ''r1'' ''a.com'' ''/'' 1 None, exRoute ''r2'' ''a.com'' ''/'' 1 None]"
    by (simp add: getGroupedRoutes_def exController_def exStore_def exParsed_def elems_def
      getOrderedRoutes_def exEnv_def sortSlice_def routeLess_def exRoute_def checkValidRoute_def
      routeVerdict_def Let_def exSpec_def emptyTLS_def getServicePort_def BIGIP_def
      hostPathKey_def updateHostPathMap_def rscKey_def)
  have 2: "map_sum id snd
     (getGroupedRoutes
        (exEnv [exRoute ''r1'' ''a.com'' ''/'' 1 None,
                (exRoute ''r2'' ''a.com'' ''/'' 2 None)\<lparr>Namespace_rt := ''ns2''\<rparr>])
        (exController [(''g'', (exParsed ''ns1'' ''gw'' ''test'')\<lparr>namespaces := Some [''ns2'', ''ns1'']\<rparr>)])
        ''g'' (Some (exSpec ''gw'')))
   = Inr [(exRoute ''r2'' ''a.com'' ''/'' 2 None)\<lparr>Namespace_rt := ''ns2''\<rparr>,
          exRoute ''r1'' ''a.com'' ''/'' 1 None]"
    by (simp add: getGroupedRoutes_def exController_def exStore_def exParsed_def elems_def
      getOrderedRoutes_def exEnv_def sortSlice_def routeLess_def exRoute_def checkValidRoute_def
      routeVerdict_def Let_def exSpec_def emptyTLS_def getServicePort_def BIGIP_def
      hostPathKey_def updateHostPathMap_def rscKey_def)
  have 3: "map_sum id snd
     (getGroupedRoutes
        (exEnvNoService
           [(exRoute ''r1'' ''a.com'' ''/'' 1 None)\<lparr>To := ''gone'', TargetPort := None\<rparr>,
            exRoute ''r2'' ''a.com'' ''/'' 2 None])
        (exController [(''ns1'', exParsed ''ns1'' ''gw'' ''test'')]) ''ns1'' (Some (exSpec ''gw'')))
   = Inr [exRoute ''r2'' ''a.com'' ''/'' 2 None]"
    by (simp add: getGroupedRoutes_def exController_def exStore_def exParsed_def elems_def
      getOrderedRoutes_def exEnv_def sortSlice_def routeLess_def exRoute_def checkValidRoute_def
      routeVerdict_def Let_def exSpec_def emptyTLS_def getServicePort_def BIGIP_def
      hostPathKey_def updateHostPathMap_def rscKey_def exEnvNoService_def)
  from 1 2 3 show ?thesis by (simp only: simp_thms)
qed

section \<open>Monitors of a built config\<close>

lemma removeLoop_filter:
  "monitorLen = length ms \<Longrightarrow> i \<le> monitorLen
   \<Longrightarrow> removeLoop ms i monitorLen = Inr (take i ms @ filter InUse (drop i ms))"
proof (induction ms i monitorLen rule: removeLoop.induct)
  case (1 monitors i monitorLen)
  show ?case
  proof (cases "i < monitorLen")
    case False
    then have "removeLoop monitors i monitorLen = Inr monitors"
      by (subst removeLoop.simps) simp
    with False 1(4,5) show ?thesis by simp
  next
    case lt: True
    with 1(4) have il: "i < length monitors" by simp
    have d: "drop i monitors = monitors ! i # drop (i + 1) monitors"
      using il by (simp add: Cons_nth_drop_Suc)
    show ?thesis
    proof (cases "InUse (monitors ! i)")
      case True
      have "removeLoop monitors i monitorLen = removeLoop monitors (i + 1) monitorLen"
        by (subst removeLoop.simps) (use lt il True in simp)
      also have "\<dots> = Inr (take (i + 1) monitors @ filter InUse (drop (i + 1) monitors))"
        using 1(3)[OF lt il _ 1(4)] True lt by simp
      also have "\<dots> = Inr (take i monitors @ filter InUse (drop i monitors))"
        using il True by (simp add: d take_Suc_conv_app_nth)
      finally show ?thesis .
    next
      case nu: False
      show ?thesis
      proof (cases "i = length monitors - 1")
        case True
        have "removeLoop monitors i monitorLen = removeLoop (take i monitors) i (monitorLen - 1)"
          by (subst removeLoop.simps) (use lt il nu True in simp)
        also have "\<dots> = Inr (take i (take i monitors) @ filter InUse (drop i (take i monitors)))"
          using 1(1)[OF lt il nu True] 1(4) il True by simp
        also have "\<dots> = Inr (take i monitors @ filter InUse (drop i monitors))"
        proof -
          have "drop (i + 1) monitors = []" using il True by simp
          then have "filter InUse (drop i monitors) = []" unfolding d using nu by simp
          then show ?thesis by simp
        qed
        finally show ?thesis .
      next
        case False
        let ?ms = "take i monitors @ drop (i + 1) monitors"
        have len: "monitorLen - 1 = length ?ms" using il 1(4) by simp
        have "removeLoop monitors i monitorLen = removeLoop ?ms i (monitorLen - 1)"
          by (subst removeLoop.simps) (use lt il nu False in simp)
        also have "\<dots> = Inr (take i ?ms @ filter InUse (drop i ?ms))"
          using 1(2)[OF lt il nu False len] lt by simp
        also have "\<dots> = Inr (take i monitors @ filter InUse (drop i monitors))"
          using il nu by (simp add: d)
        finally show ?thesis .
      qed
    qed
  qed
qed

lemma removeUnusedHealthMonitors_filter:
  "removeUnusedHealthMonitors rsCfg = Inr (rsCfg\<lparr>Monitors := filter InUse (Monitors rsCfg)\<rparr>)"
  by (simp add: removeUnusedHealthMonitors_def removeLoop_filter)

section \<open>What TLS handling leaves alone\<close>

lemma configCore_AddIRule [simp]:
  "configCore (rsCfg\<lparr>Virtual := AddIRule (Virtual rsCfg) nm\<rparr>) = configCore rsCfg"
  by (simp add: configCore_def AddIRule_def)

lemma configCore_AddOrUpdateProfile [simp]:
  "configCore (rsCfg\<lparr>Virtual := AddOrUpdateProfile (Virtual rsCfg) prof\<rparr>) = configCore rsCfg"
  by (simp add: configCore_def AddOrUpdateProfile_def Let_def)

lemma configCore_AddOrUpdateProfile2 [simp]:
  "configCore (rsCfg\<lparr>Virtual := AddOrUpdateProfile (AddOrUpdateProfile (Virtual rsCfg) p1) p2\<rparr>)
     = configCore rsCfg"
  by (simp add: configCore_def AddOrUpdateProfile_def Let_def)

lemma configCore_addIRule [simp]: "configCore (addIRule rsCfg nm part rule) = configCore rsCfg"
  by (simp add: configCore_def addIRule_def Let_def split: option.splits)

lemma configCore_addInternalDataGroup [simp]:
  "configCore (addInternalDataGroup rsCfg nm part) = configCore rsCfg"
  by (simp add: configCore_def addInternalDataGroup_def Let_def split: option.splits)

lemma configCore_IntDgMap [simp]: "configCore (rsCfg\<lparr>IntDgMap := dgs\<rparr>) = configCore rsCfg"
  by (simp add: configCore_def)

lemma configCore_handleDataGroupIRules [simp]:
  "configCore (handleDataGroupIRules e rsCfg vsHost t) = configCore rsCfg"
  by (simp add: handleDataGroupIRules_def Let_def)

lemma configCore_handleHTTPTraffic [simp]:
  "configCore (handleHTTPTraffic e rsCfg tc) = configCore rsCfg"
  by (simp add: handleHTTPTraffic_def Let_def)

lemma configCore_applyProfiles:
  "applyProfiles rsCfg r = (err, rsCfg') \<Longrightarrow> configCore rsCfg' = configCore rsCfg"
  by (cases r) (auto simp: applyProfiles_def configCore_def)

lemma configCore_secretProfile:
  assumes "secretProfile e create nm ctx ns sslContext rsCfg = (ok, rsCfg', ctx')"
  shows "configCore rsCfg' = configCore rsCfg"
proof (cases "nm = []")
  case True
  with assms show ?thesis by (simp add: secretProfile_def)
next
  case ne: False
  show ?thesis
  proof (cases "sslContext nm")
    case (Some secret)
    obtain err c where a: "applyProfiles rsCfg
        (create secret ctx (customProfiles rsCfg) (Profiles (Virtual rsCfg))) = (err, c)"
      by (cases "applyProfiles rsCfg (create secret ctx (customProfiles rsCfg) (Profiles (Virtual rsCfg)))")
    with assms ne Some have "rsCfg' = c" by (simp add: secretProfile_def)
    with configCore_applyProfiles[OF a] show ?thesis by simp
  next
    case None
    show ?thesis
    proof (cases "getSecret e ns nm")
      case n2: None
      with assms ne None show ?thesis by (simp add: secretProfile_def)
    next
      case (Some secret)
      obtain err c where a: "applyProfiles rsCfg
          (create secret ctx (customProfiles rsCfg) (Profiles (Virtual rsCfg))) = (err, c)"
        by (cases "applyProfiles rsCfg (create secret ctx (customProfiles rsCfg) (Profiles (Virtual rsCfg)))")
      with assms ne None Some have "rsCfg' = c" by (simp add: secretProfile_def)
      with configCore_applyProfiles[OF a] show ?thesis by simp
    qed
  qed
qed

lemma configCore_tlsProfiles:
  assumes "tlsProfiles e sslContext rsCfg tc = (ok, rsCfg', ctx')"
  shows "configCore rsCfg' = configCore rsCfg"
proof -
  let ?bp = "bigIPSSLProfiles tc"
  consider (bigip) "referenceType tc = BIGIP"
    | (secret) "referenceType tc \<noteq> BIGIP" "referenceType tc = SecretRef"
    | (cert) "referenceType tc \<noteq> BIGIP" "referenceType tc \<noteq> SecretRef" "referenceType tc = CertificateRef"
    | (other) "referenceType tc \<noteq> BIGIP" "referenceType tc \<noteq> SecretRef" "referenceType tc \<noteq> CertificateRef"
    by blast
  then show ?thesis
  proof cases
    case bigip
    with assms show ?thesis
      by (auto simp: tlsProfiles_def Let_def configCore_def AddOrUpdateProfile_def)
  next
    case secret
    obtain ok1 c1 x1 where s1: "secretProfile e (createSecretClientSSLProfile e) (clientSSL ?bp)
        CustomProfileClient (namespace_tc tc) sslContext rsCfg = (ok1, c1, x1)"
      by (metis prod_cases3)
    note k1 = configCore_secretProfile[OF s1]
    show ?thesis
    proof (cases ok1)
      case False
      with assms secret s1 have "rsCfg' = c1" by (simp add: tlsProfiles_def Let_def)
      with k1 show ?thesis by simp
    next
      case True
      with assms secret s1 have "secretProfile e (createSecretServerSSLProfile e) (serverSSL ?bp)
          CustomProfileServer (namespace_tc tc) x1 c1 = (ok, rsCfg', ctx')"
        by (simp add: tlsProfiles_def Let_def)
      from configCore_secretProfile[OF this] k1 show ?thesis by simp
    qed
  next
    case cert
    obtain err1 c1 where a1: "(if key_bp ?bp \<noteq> [] \<and> certificate_bp ?bp \<noteq> []
                then applyProfiles rsCfg
                       (createClientSSLProfile e (key_bp ?bp) (certificate_bp ?bp) (name_tc tc)
                          (namespace_tc tc) CustomProfileClient (customProfiles rsCfg)
                          (Profiles (Virtual rsCfg)))
                else (False, rsCfg)) = (err1, c1)"
      by (metis surj_pair)
    have k1: "configCore c1 = configCore rsCfg"
      using a1 by (auto split: if_splits dest: configCore_applyProfiles)
    show ?thesis
    proof (cases err1)
      case True
      with assms cert a1 have "rsCfg' = c1" by (simp add: tlsProfiles_def Let_def)
      with k1 show ?thesis by simp
    next
      case ne: False
      show ?thesis
      proof (cases "destinationCACertificate_bp ?bp = []")
        case True
        with assms cert a1 ne have "rsCfg' = c1" by (simp add: tlsProfiles_def Let_def)
        with k1 show ?thesis by simp
      next
        case False
        obtain err2 c2 where a2: "applyProfiles c1
                     (createServerSSLProfile e (destinationCACertificate_bp ?bp)
                        (if caCertificate_bp ?bp \<noteq> [] then caCertificate_bp ?bp else [])
                        (name_tc tc) (namespace_tc tc) CustomProfileServer
                        (customProfiles c1) (Profiles (Virtual c1))) = (err2, c2)"
          by (metis surj_pair)
        with assms cert a1 ne False have "rsCfg' = c2" by (simp add: tlsProfiles_def Let_def)
        with configCore_applyProfiles[OF a2] k1 show ?thesis by simp
      qed
    qed
  next
    case other
    with assms show ?thesis by (simp add: tlsProfiles_def Let_def)
  qed
qed

lemma handleTLS_frame:
  assumes "handleTLS e sslContext rsCfg tc = Inr (ok, rsCfg', ctx')"
  shows "configCore rsCfg' = configCore rsCfg"
proof -
  from assms obtain va where va: "VirtualAddress (Virtual rsCfg) = Some va"
    by (cases "VirtualAddress (Virtual rsCfg)") (auto simp: handleTLS_def)
  show ?thesis
  proof (cases "Port_va va = httpsPort tc")
    case False
    with assms va show ?thesis by (auto simp: handleTLS_def)
  next
    case port: True
    show ?thesis
    proof (cases "termination_tc tc = TLSPassthrough")
      case True
      with assms va port show ?thesis by (auto simp: handleTLS_def)
    next
      case np: False
      obtain ok1 c1 x1 where t: "tlsProfiles e sslContext rsCfg tc = (ok1, c1, x1)"
        by (metis prod_cases3)
      note k1 = configCore_tlsProfiles[OF t]
      show ?thesis
      proof (cases ok1)
        case False
        with assms va port np t have "rsCfg' = c1" by (simp add: handleTLS_def)
        with k1 show ?thesis by simp
      next
        case True
        with assms va port np t k1 show ?thesis
          by (auto simp: handleTLS_def Let_def split: if_splits)
      qed
    qed
  qed
qed

lemma handleRouteTLS_frame:
  assumes "handleRouteTLS e sslContext rsCfg route extdSpec port = Inr (ok, rsCfg', ctx')"
  shows "configCore rsCfg' = configCore rsCfg"
proof (cases "TLS_rt route")
  case None
  with assms show ?thesis by (simp add: handleRouteTLS_def)
next
  case (Some t)
  with assms show ?thesis
    by (simp add: handleRouteTLS_def Let_def) (erule handleTLS_frame)
qed

section \<open>Rule ordinals\<close>

lemma firstIndex_Some: "firstIndex P xs = Some i \<Longrightarrow> i < length xs \<and> P (xs ! i)"
proof (induction xs arbitrary: i)
  case Nil
  then show ?case by simp
next
  case (Cons x xs)
  then show ?case by (cases "P x") (auto split: if_splits)
qed

lemma lastIndex_less: "lastIndex P xs = Some i \<Longrightarrow> i < length xs"
  by (auto simp: lastIndex_def dest!: firstIndex_Some)

lemma sortrules_single: "sortrules [(k, rl)] [] n = [rl\<lparr>Ordinal := n\<rparr>]"
  by (simp add: sortrules_def)

lemma sortrules_empty: "sortrules [] [] n = []"
  by (simp add: sortrules_def)

lemma prepareRouteLTMRules_ordinals:
  assumes "prepareRouteLTMRules e route poolName asr = Some rls"
  shows "\<forall>x\<in>set rls. Ordinal x = 0"
  using assms
  by (auto simp: prepareRouteLTMRules_def Let_def set_sortSlice sortrules_single sortrules_empty
      split: option.splits if_splits)

lemma mergeHost_Ordinal: "mergeHost ex new = Inr m \<Longrightarrow> Ordinal m = Ordinal ex"
  by (auto simp: mergeHost_def split: option.splits list.splits)

lemma mergeRules_ordinals:
  assumes "mergeRules existing rls newRules = Inr (existing', newRules')"
    and "\<forall>x\<in>set existing. Ordinal x = 0" "\<forall>x\<in>set rls. Ordinal x = 0"
    and "\<forall>x\<in>set newRules. Ordinal x = 0"
  shows "(\<forall>x\<in>set existing'. Ordinal x = 0) \<and> (\<forall>x\<in>set newRules'. Ordinal x = 0)"
  using assms
proof (induction rls arbitrary: existing newRules)
  case Nil
  then show ?case by simp
next
  case (Cons r rls)
  show ?case
  proof (cases "lastIndex (\<lambda>rule. Name_rule rule = Name_rule r) existing")
    case None
    with Cons.prems(1) have "mergeRules existing rls (newRules @ [r]) = Inr (existing', newRules')"
      by simp
    from Cons.IH[OF this] Cons.prems(2-) show ?thesis by simp
  next
    case (Some i)
    from lastIndex_less[OF Some] have il: "i < length existing" .
    from Cons.prems(1) Some obtain m where m: "mergeHost (existing ! i) r = Inr m"
      and rest: "mergeRules (existing[i := m]) rls newRules = Inr (existing', newRules')"
      by (auto split: sum.splits)
    from mergeHost_Ordinal[OF m] il Cons.prems(2) have "Ordinal m = 0" by simp
    then have "\<forall>x\<in>set (existing[i := m]). Ordinal x = 0"
      using Cons.prems(2) set_update_subset_insert[of existing i m] by auto
    from Cons.IH[OF rest this] Cons.prems(3,4) show ?thesis by simp
  qed
qed

lemma AddRules_ordinals:
  assumes "AddRules e pol rls = Inr pol'"
    and "\<forall>x\<in>set (Rules pol). Ordinal x = 0" "\<forall>x\<in>set rls. Ordinal x = 0"
  shows "\<forall>x\<in>set (Rules pol'). Ordinal x = 0"
proof -
  from assms(1) obtain ex nw where m: "mergeRules (Rules pol) rls [] = Inr (ex, nw)"
    and r: "Rules pol' = sortSlice (RulesLess e) (ex @ nw)"
    by (auto simp: AddRules_def Let_def split: sum.splits)
  from mergeRules_ordinals[OF m assms(2,3)] show ?thesis
    unfolding r by (auto simp: set_sortSlice)
qed

lemma createPolicy_ordinals:
  assumes "createPolicy e rls nm part = Inr pol'" "\<forall>x\<in>set rls. Ordinal x = 0"
  shows "\<forall>x\<in>set (Rules pol'). Ordinal x = 0"
  using assms(1) unfolding createPolicy_def
  by (rule AddRules_ordinals) (use assms(2) in simp_all)

lemma SetPolicy_ordinals:
  assumes "ordinalsZero rsCfg" "\<forall>x\<in>set (Rules pol). Ordinal x = 0"
  shows "ordinalsZero (SetPolicy rsCfg pol)"
proof -
  have "set (Policies (SetPolicy rsCfg pol)) \<subseteq> insert pol (set (Policies rsCfg))"
    using set_update_subset_insert[of "Policies rsCfg" _ pol]
    by (auto simp: SetPolicy_def Let_def split: option.splits)
  with assms show ?thesis by (auto simp: ordinalsZero_def list_all_iff)
qed

lemma FindPolicy_mem: "FindPolicy rsCfg c = Some pol \<Longrightarrow> pol \<in> set (Policies rsCfg)"
  by (auto simp: FindPolicy_def find_Some_iff)

lemma AddRuleToPolicy_ordinals:
  assumes "AddRuleToPolicy e rsCfg nm part rules = Inr rsCfg'"
    and "ordinalsZero rsCfg" "\<forall>x\<in>set rules. Ordinal x = 0"
  shows "ordinalsZero rsCfg'"
proof (cases "FindPolicy rsCfg PolicyControlForward")
  case None
  with assms(1) obtain pol where p: "createPolicy e rules nm part = Inr pol"
    and c: "rsCfg' = SetPolicy rsCfg pol"
    by (auto simp: AddRuleToPolicy_def split: sum.splits)
  from SetPolicy_ordinals[OF assms(2) createPolicy_ordinals[OF p assms(3)]] c show ?thesis by simp
next
  case (Some policy)
  with assms(1) obtain pol where p: "AddRules e policy rules = Inr pol"
    and c: "rsCfg' = SetPolicy rsCfg pol"
    by (auto simp: AddRuleToPolicy_def split: sum.splits)
  from FindPolicy_mem[OF Some] assms(2) have "\<forall>x\<in>set (Rules policy). Ordinal x = 0"
    by (auto simp: ordinalsZero_def list_all_iff)
  from SetPolicy_ordinals[OF assms(2) AddRules_ordinals[OF p this assms(3)]] c show ?thesis by simp
qed

lemma AddRuleToPolicy_frame:
  assumes "AddRuleToPolicy e rsCfg nm part rules = Inr rsCfg'"
  shows "Monitors rsCfg' = Monitors rsCfg \<and> Pools rsCfg' = Pools rsCfg
       \<and> VirtualAddress (Virtual rsCfg') = VirtualAddress (Virtual rsCfg)
       \<and> Name_vs (Virtual rsCfg') = Name_vs (Virtual rsCfg)
       \<and> Partition_vs (Virtual rsCfg') = Partition_vs (Virtual rsCfg)
       \<and> AllowSourceRange_vs (Virtual rsCfg') = AllowSourceRange_vs (Virtual rsCfg)"
proof -
  have "\<And>pol. Monitors (SetPolicy rsCfg pol) = Monitors rsCfg \<and> Pools (SetPolicy rsCfg pol) = Pools rsCfg
       \<and> VirtualAddress (Virtual (SetPolicy rsCfg pol)) = VirtualAddress (Virtual rsCfg)
       \<and> Name_vs (Virtual (SetPolicy rsCfg pol)) = Name_vs (Virtual rsCfg)
       \<and> Partition_vs (Virtual (SetPolicy rsCfg pol)) = Partition_vs (Virtual rsCfg)
       \<and> AllowSourceRange_vs (Virtual (SetPolicy rsCfg pol)) = AllowSourceRange_vs (Virtual rsCfg)"
    by (simp add: SetPolicy_def Let_def split: option.splits)
  with assms show ?thesis
    by (auto simp: AddRuleToPolicy_def split: option.splits sum.splits)
qed
section \<open>Invariants of a group build\<close>

text \<open>What the build of a config keeps: rule ordinals, the binding of monitors, the address.\<close>

lemma monitorsBound_bind:
  assumes b: "monitorsBound routes rsCfg" and r: "route \<in> set routes"
    and f: "found = firstIndex (\<lambda>monitor. HasPrefix (Path_mon monitor) (Host route @ Path_rt route))
                    (Monitors rsCfg)"
    and n: "MonitorNames pool = (case found of
                        Some index \<Rightarrow> [Name_mon (Monitors rsCfg ! index)] | None \<Rightarrow> [])"
  shows "monitorsBound routes
           (rsCfg\<lparr>Monitors := (case found of
                        Some index \<Rightarrow> (Monitors rsCfg)[index := (Monitors rsCfg ! index)\<lparr>InUse := True\<rparr>]
                      | None \<Rightarrow> Monitors rsCfg),
                    Pools := Pools rsCfg @ [pool]\<rparr>)"
proof (cases found)
  case None
  with b show ?thesis by (auto simp: monitorsBound_def list_all_iff list_ex_iff)
next
  case (Some i)
  with f have fi: "firstIndex (\<lambda>monitor. HasPrefix (Path_mon monitor) (Host route @ Path_rt route))
                    (Monitors rsCfg) = Some i" by simp
  from firstIndex_Some[OF fi] have i: "i < length (Monitors rsCfg)"
    and p: "HasPrefix (Path_mon (Monitors rsCfg ! i)) (Host route @ Path_rt route)" by simp_all
  have nm: "MonitorNames pool = [Name_mon (Monitors rsCfg ! i)]" using n Some by simp
  have "\<forall>m\<in>set ((Monitors rsCfg)[i := (Monitors rsCfg ! i)\<lparr>InUse := True\<rparr>]).
          \<not> InUse m \<or> ((\<exists>p\<in>set (Pools rsCfg @ [pool]). Name_mon m \<in> set (MonitorNames p))
                         \<and> (\<exists>r\<in>set routes. HasPrefix (Path_mon m) (Host r @ Path_rt r)))"
  proof
    fix m assume "m \<in> set ((Monitors rsCfg)[i := (Monitors rsCfg ! i)\<lparr>InUse := True\<rparr>])"
    then have "m = (Monitors rsCfg ! i)\<lparr>InUse := True\<rparr> \<or> m \<in> set (Monitors rsCfg)"
      using set_update_subset_insert[of "Monitors rsCfg" i] by auto
    then show "\<not> InUse m \<or> ((\<exists>p\<in>set (Pools rsCfg @ [pool]). Name_mon m \<in> set (MonitorNames p))
                         \<and> (\<exists>r\<in>set routes. HasPrefix (Path_mon m) (Host r @ Path_rt r)))"
    proof
      assume "m = (Monitors rsCfg ! i)\<lparr>InUse := True\<rparr>"
      with nm p r show ?thesis by auto
    next
      assume "m \<in> set (Monitors rsCfg)"
      with b show ?thesis by (auto simp: monitorsBound_def list_all_iff list_ex_iff)
    qed
  qed
  with Some show ?thesis by (simp add: monitorsBound_def list_all_iff list_ex_iff)
qed

lemma AddRuleToPolicy_monitorsBound:
  assumes "AddRuleToPolicy e rsCfg nm part rules = Inr rsCfg'" "monitorsBound routes rsCfg"
  shows "monitorsBound routes rsCfg'"
  using AddRuleToPolicy_frame[OF assms(1)] assms(2) by (simp add: monitorsBound_def)

lemma backendsLoop_inv:
  assumes "backendsLoop e route servicePort bss rsCfg = Inr (err, rsCfg')"
    and "route \<in> set routes"
  shows "(ordinalsZero rsCfg \<longrightarrow> ordinalsZero rsCfg')
       \<and> (monitorsBound routes rsCfg \<longrightarrow> monitorsBound routes rsCfg')
       \<and> VirtualAddress (Virtual rsCfg') = VirtualAddress (Virtual rsCfg)
       \<and> Name_vs (Virtual rsCfg') = Name_vs (Virtual rsCfg)
       \<and> Partition_vs (Virtual rsCfg') = Partition_vs (Virtual rsCfg)"
  using assms(1)
proof (induction bss arbitrary: rsCfg)
  case Nil
  then show ?case by simp
next
  case (Cons bs rest)
  define found where "found = firstIndex (\<lambda>monitor. HasPrefix (Path_mon monitor) (Host route @ Path_rt route))
                    (Monitors rsCfg)"
  define pool where "pool = \<lparr>Name_pool = formatPoolName (Namespace_rt route) bs servicePort '''',
                   Partition_pool = Partition_vs (Virtual rsCfg),
                   ServiceName = bs,
                   ServiceNamespace = Namespace_rt route,
                   ServicePort = servicePort,
                   NodeMemberLabel = '''',
                   Balance = (case Annotations route (F5VsBalanceAnnotation e) of
                                Some b \<Rightarrow> b | None \<Rightarrow> ''''),
                   MonitorNames = (case found of
                        Some index \<Rightarrow> [Name_mon (Monitors rsCfg ! index)] | None \<Rightarrow> []),
                   Members = []\<rparr>"
  define rsCfg1 where "rsCfg1 = rsCfg\<lparr>Monitors := (case found of
                        Some index \<Rightarrow> (Monitors rsCfg)[index := (Monitors rsCfg ! index)\<lparr>InUse := True\<rparr>]
                      | None \<Rightarrow> Monitors rsCfg),
                    Pools := Pools rsCfg @ [pool]\<rparr>"
  have step: "backendsLoop e route servicePort (bs # rest) rsCfg =
     (if \<not> isPassthroughRoute route \<and> \<not> IsRouteABDeployment route then
        (case prepareRouteLTMRules e route (Name_pool pool) (AllowSourceRange_vs (Virtual rsCfg)) of
           None \<Rightarrow> Inr (True, rsCfg1)
         | Some rules \<Rightarrow>
             (case AddRuleToPolicy e rsCfg1
                     (formatPolicyName (Host route) (Namespace_rt route) (Name_vs (Virtual rsCfg)))
                     (Partition_vs (Virtual rsCfg)) rules of
                Inl f \<Rightarrow> Inl f
              | Inr rsCfg2 \<Rightarrow> backendsLoop e route servicePort rest rsCfg2))
      else backendsLoop e route servicePort rest rsCfg1)"
    unfolding rsCfg1_def pool_def found_def
    by (simp add: Let_def split: option.splits)
  have n: "MonitorNames pool = (case found of
                        Some index \<Rightarrow> [Name_mon (Monitors rsCfg ! index)] | None \<Rightarrow> [])"
    by (simp add: pool_def)
  have mb1: "monitorsBound routes rsCfg \<Longrightarrow> monitorsBound routes rsCfg1"
    unfolding rsCfg1_def by (rule monitorsBound_bind[OF _ assms(2) found_def n])
  have oz1: "ordinalsZero rsCfg1 = ordinalsZero rsCfg" by (simp add: rsCfg1_def ordinalsZero_def)
  have fr1: "Virtual rsCfg1 = Virtual rsCfg" by (simp add: rsCfg1_def)
  note run = Cons.prems[unfolded step]
  show ?case
  proof (cases "\<not> isPassthroughRoute route \<and> \<not> IsRouteABDeployment route")
    case False
    with run have "backendsLoop e route servicePort rest rsCfg1 = Inr (err, rsCfg')"
      by (simp split: if_splits)
    from Cons.IH[OF this] mb1 oz1 fr1 show ?thesis by simp
  next
    case True
    show ?thesis
    proof (cases "prepareRouteLTMRules e route (Name_pool pool) (AllowSourceRange_vs (Virtual rsCfg))")
      case None
      with run True have "rsCfg' = rsCfg1" by simp
      with mb1 oz1 fr1 show ?thesis by simp
    next
      case (Some rules)
      with run True obtain rsCfg2 where
        a: "AddRuleToPolicy e rsCfg1
                     (formatPolicyName (Host route) (Namespace_rt route) (Name_vs (Virtual rsCfg)))
                     (Partition_vs (Virtual rsCfg)) rules = Inr rsCfg2"
        and l: "backendsLoop e route servicePort rest rsCfg2 = Inr (err, rsCfg')"
        by (auto split: sum.splits)
      note z = prepareRouteLTMRules_ordinals[OF Some]
      from AddRuleToPolicy_ordinals[OF a _ z] oz1
      have oz2: "ordinalsZero rsCfg \<Longrightarrow> ordinalsZero rsCfg2" by simp
      from AddRuleToPolicy_monitorsBound[OF a] mb1
      have mb2: "monitorsBound routes rsCfg \<Longrightarrow> monitorsBound routes rsCfg2" by simp
      from AddRuleToPolicy_frame[OF a] fr1
      have fr2: "VirtualAddress (Virtual rsCfg2) = VirtualAddress (Virtual rsCfg)"
        "Name_vs (Virtual rsCfg2) = Name_vs (Virtual rsCfg)"
        "Partition_vs (Virtual rsCfg2) = Partition_vs (Virtual rsCfg)" by simp_all
      from Cons.IH[OF l] oz2 mb2 fr2 show ?thesis by simp
    qed
  qed
qed
lemma configCore_invariants:
  assumes "configCore a = configCore b"
  shows "ordinalsZero a = ordinalsZero b" "monitorsBound routes a = monitorsBound routes b"
    "VirtualAddress (Virtual a) = VirtualAddress (Virtual b)"
    "Name_vs (Virtual a) = Name_vs (Virtual b)"
    "Partition_vs (Virtual a) = Partition_vs (Virtual b)"
  using assms by (simp_all add: configCore_def ordinalsZero_def monitorsBound_def)

lemma prepareResourceConfigFromRoute_inv:
  assumes "prepareResourceConfigFromRoute e rsCfg route servicePort ps = Inr (err, rsCfg')"
    and "route \<in> set routes"
  shows "(ordinalsZero rsCfg \<longrightarrow> ordinalsZero rsCfg')
       \<and> (monitorsBound routes rsCfg \<longrightarrow> monitorsBound routes rsCfg')
       \<and> VirtualAddress (Virtual rsCfg') = VirtualAddress (Virtual rsCfg)
       \<and> Name_vs (Virtual rsCfg') = Name_vs (Virtual rsCfg)
       \<and> Partition_vs (Virtual rsCfg') = Partition_vs (Virtual rsCfg)"
proof (cases "protocol_ps ps = HTTP
         \<and> (case TLS_rt route of
               None \<Rightarrow> False
             | Some t \<Rightarrow> InsecureEdgeTerminationPolicy t = ''''
                         \<or> InsecureEdgeTerminationPolicy t = InsecureEdgeTerminationPolicyNone)")
  case True
  with assms(1) have "rsCfg' = rsCfg" by (simp add: prepareResourceConfigFromRoute_def)
  then show ?thesis by simp
next
  case False
  let ?c = "rsCfg\<lparr>MetaData := (MetaData rsCfg)\<lparr>hosts := hosts (MetaData rsCfg) @ [Host route]\<rparr>\<rparr>"
  from False assms(1) have "backendsLoop e route servicePort (GetRouteBackends route) ?c = Inr (err, rsCfg')"
    by (auto simp: prepareResourceConfigFromRoute_def split: if_splits)
  from backendsLoop_inv[OF this assms(2)] show ?thesis
    by (simp add: ordinalsZero_def monitorsBound_def)
qed

lemma routeLoop_inv:
  assumes "routeLoop e extdSpec ps rts (rsCfg, ctlr) = Inr (err, rsCfg', ctlr')"
    and "set rts \<subseteq> set routes"
  shows "(ordinalsZero rsCfg \<longrightarrow> ordinalsZero rsCfg')
       \<and> (monitorsBound routes rsCfg \<longrightarrow> monitorsBound routes rsCfg')
       \<and> VirtualAddress (Virtual rsCfg') = VirtualAddress (Virtual rsCfg)
       \<and> Name_vs (Virtual rsCfg') = Name_vs (Virtual rsCfg)
       \<and> Partition_vs (Virtual rsCfg') = Partition_vs (Virtual rsCfg)
       \<and> ltmConfig (resources ctlr') = ltmConfig (resources ctlr)
       \<and> extdSpecMap (resources ctlr') = extdSpecMap (resources ctlr)"
  using assms
proof (induction rts arbitrary: rsCfg ctlr)
  case Nil
  then show ?case by simp
next
  case (Cons rt rest)
  let ?c0 = "rsCfg\<lparr>MetaData := (MetaData rsCfg)
                      \<lparr>baseResources := (baseResources (MetaData rsCfg))
                          (Namespace_rt rt @ ''/'' @ Name_rt rt \<mapsto> RouteKind)\<rparr>\<rparr>"
  let ?port = "snd (getServicePort e rt)"
  let ?mark = "\<lambda>c. c\<lparr>resources := (resources c)
                                  \<lparr>processedNativeResources :=
                                     insert \<lparr>kind_rr = RouteKind, namespace_rr = Namespace_rt rt,
                                             name_rr = Name_rt rt\<rparr>
                                       (processedNativeResources (resources c))\<rparr>\<rparr>"
  have rt: "rt \<in> set routes" and rest: "set rest \<subseteq> set routes" using Cons.prems(2) by simp_all
  from Cons.prems(1) obtain e1 c1 where
    p: "prepareResourceConfigFromRoute e ?c0 rt ?port ps = Inr (e1, c1)"
    by (auto simp: Let_def split: sum.splits)
  from prepareResourceConfigFromRoute_inv[OF p rt]
  have i1: "ordinalsZero rsCfg \<longrightarrow> ordinalsZero c1"
    "monitorsBound routes rsCfg \<longrightarrow> monitorsBound routes c1"
    "VirtualAddress (Virtual c1) = VirtualAddress (Virtual rsCfg)"
    "Name_vs (Virtual c1) = Name_vs (Virtual rsCfg)"
    "Partition_vs (Virtual c1) = Partition_vs (Virtual rsCfg)"
    by (simp_all add: ordinalsZero_def monitorsBound_def)
  show ?case
  proof (cases e1)
    case True
    with Cons.prems(1) p have "rsCfg' = c1" "ctlr' = ctlr" by (simp_all add: Let_def)
    with i1 show ?thesis by simp
  next
    case ne: False
    show ?thesis
    proof (cases "isSecureRoute rt")
      case False
      with Cons.prems(1) p ne have "routeLoop e extdSpec ps rest (c1, ?mark ctlr) = Inr (err, rsCfg', ctlr')"
        by (simp add: Let_def)
      from Cons.IH[OF this rest] i1 show ?thesis by simp
    next
      case True
      with Cons.prems(1) p ne obtain ok c2 ctx where
        h: "handleRouteTLS e (SSLContext ctlr) c1 rt extdSpec ?port = Inr (ok, c2, ctx)"
        by (auto simp: Let_def split: sum.splits)
      note k = configCore_invariants[OF handleRouteTLS_frame[OF h]]
      show ?thesis
      proof (cases ok)
        case False
        with Cons.prems(1) p ne True h have "rsCfg' = c2" "ctlr' = ctlr\<lparr>SSLContext := ctx\<rparr>"
          by (simp_all add: Let_def)
        with i1 k show ?thesis by simp
      next
        case ok: True
        with Cons.prems(1) p ne True h
        have "routeLoop e extdSpec ps rest (c2, ?mark (ctlr\<lparr>SSLContext := ctx\<rparr>)) = Inr (err, rsCfg', ctlr')"
          by (simp add: Let_def)
        from Cons.IH[OF this rest] i1 k show ?thesis by simp
      qed
    qed
  qed
qed

lemma monitorsBound_initial:
  "monitorsBound routes (handleRouteGroupExtendedSpec (newResourceConfig extdSpec part rsName ps) extdSpec)"
  by (simp add: monitorsBound_def handleRouteGroupExtendedSpec_def newResourceConfig_def Let_def
      list_all_iff)

lemma ordinalsZero_initial:
  "ordinalsZero (handleRouteGroupExtendedSpec (newResourceConfig extdSpec part rsName ps) extdSpec)"
  by (simp add: ordinalsZero_def handleRouteGroupExtendedSpec_def newResourceConfig_def Let_def)

lemma monitorsBound_filter:
  "monitorsBound routes rsCfg \<Longrightarrow> monitorsInUse routes (rsCfg\<lparr>Monitors := filter InUse (Monitors rsCfg)\<rparr>)"
  by (auto simp: monitorsBound_def monitorsInUse_def list_all_iff)

lemma buildConfig_inv:
  assumes "buildConfig e extdSpec part routes ps ctlr = Inr (err, rsCfg, ctlr')"
  shows "ordinalsZero rsCfg \<and> monitorsInUse routes rsCfg
       \<and> VirtualAddress (Virtual rsCfg)
           = (if VServerAddr extdSpec = '''' \<and> port_ps ps = 0 then None
              else Some \<lparr>BindAddr = VServerAddr extdSpec, Port_va = port_ps ps\<rparr>)
       \<and> ltmConfig (resources ctlr') = ltmConfig (resources ctlr)
       \<and> extdSpecMap (resources ctlr') = extdSpecMap (resources ctlr)"
proof -
  let ?n = "frameRouteVSName (VServerName extdSpec) (VServerAddr extdSpec) ps"
  let ?c = "handleRouteGroupExtendedSpec (newResourceConfig extdSpec part ?n ps) extdSpec"
  from assms obtain c1 where
    l: "routeLoop e extdSpec ps routes (?c, ctlr) = Inr (err, c1, ctlr')"
    and r: "removeUnusedHealthMonitors c1 = Inr rsCfg"
    by (auto simp: buildConfig_def Let_def split: sum.splits)
  from routeLoop_inv[OF l subset_refl] monitorsBound_initial ordinalsZero_initial
  have i: "ordinalsZero c1" "monitorsBound routes c1"
    "VirtualAddress (Virtual c1) = VirtualAddress (Virtual ?c)"
    "ltmConfig (resources ctlr') = ltmConfig (resources ctlr)"
    "extdSpecMap (resources ctlr') = extdSpecMap (resources ctlr)" by simp_all
  from r have c: "rsCfg = c1\<lparr>Monitors := filter InUse (Monitors c1)\<rparr>"
    by (simp add: removeUnusedHealthMonitors_filter)
  have v: "VirtualAddress (Virtual ?c) = (if VServerAddr extdSpec = '''' \<and> port_ps ps = 0 then None
              else Some \<lparr>BindAddr = VServerAddr extdSpec, Port_va = port_ps ps\<rparr>)"
    by (simp add: handleRouteGroupExtendedSpec_def newResourceConfig_def Let_def)
  from i(1) have "ordinalsZero rsCfg" by (simp add: c ordinalsZero_def)
  moreover from monitorsBound_filter[OF i(2)] have "monitorsInUse routes rsCfg" by (simp add: c)
  ultimately show ?thesis using i(3,4,5) v by (simp add: c)
qed

section \<open>The store under a group build\<close>

lemma storedBefore_refl: "storedBefore a a"
  by (simp add: storedBefore_def)

lemma storedBefore_trans: "storedBefore a b \<Longrightarrow> storedBefore b c \<Longrightarrow> storedBefore a c"
  unfolding storedBefore_def by metis

lemma lookupConfig_deleteVirtualServer:
  "lookupConfig (ltmConfig (resources (deleteVirtualServer c part rsName))) p n
     = (if p = part \<and> n = rsName then None else lookupConfig (ltmConfig (resources c)) p n)"
  by (simp add: deleteVirtualServer_def getPartitionResourceMap_def lookupConfig_def
      split: option.splits)

lemma deleteVirtualServer_stored:
  "storedBefore (ltmConfig (resources c)) (ltmConfig (resources (deleteVirtualServer c part rsName)))"
  by (simp add: storedBefore_def lookupConfig_deleteVirtualServer)

lemma deleteVirtualServer_extdSpecMap:
  "extdSpecMap (resources (deleteVirtualServer c part rsName)) = extdSpecMap (resources c)"
  by (simp add: deleteVirtualServer_def getPartitionResourceMap_def split: option.splits)

lemma lookupConfig_commitConfigs:
  "lookupConfig (ltmConfig (resources (commitConfigs c part vsMap))) p n
     = (if p = part \<and> vsMap n \<noteq> None then vsMap n else lookupConfig (ltmConfig (resources c)) p n)"
  by (auto simp: commitConfigs_def getPartitionResourceMap_def lookupConfig_def map_add_def
      fun_eq_iff split: option.splits)

lemma deleteGroupVirtuals_stored:
  "storedBefore (ltmConfig (resources c)) (ltmConfig (resources (deleteGroupVirtuals c extdSpec part)))"
proof -
  have "storedBefore (ltmConfig (resources c))
          (ltmConfig (resources (foldl (\<lambda>c ps.
              (let rsName = frameRouteVSName (VServerName extdSpec) (VServerAddr extdSpec) ps
               in if getVirtualServer c part rsName \<noteq> None then deleteVirtualServer c part rsName
                  else c)) c pss)))" for pss
  proof (induction pss rule: rev_induct)
    case Nil
    show ?case by (simp add: storedBefore_refl)
  next
    case (snoc ps pss)
    show ?case
      using snoc deleteVirtualServer_stored storedBefore_trans
      by (auto simp: Let_def)
  qed
  then show ?thesis by (simp add: deleteGroupVirtuals_def)
qed

lemma routesLoop_resources:
  "routesLoop e spec rs (c, a) = Inr (c', a') \<Longrightarrow> resources c' = resources c"
proof (induction rs arbitrary: c a)
  case Nil
  then show ?case by simp
next
  case (Cons r rs)
  from Cons.prems show ?case
  proof (cases rule: routesLoop_Cons_cases)
    case accept
    from Cons.IH[OF accept(2)] show ?thesis by simp
  next
    case (reject reason)
    from Cons.IH[OF reject(2)] show ?thesis by simp
  qed
qed

lemma namespacesLoop_resources:
  "namespacesLoop e spec nss (c, a) = Inr (c', a') \<Longrightarrow> resources c' = resources c"
proof (induction nss arbitrary: c a)
  case Nil
  then show ?case by simp
next
  case (Cons n nss)
  from Cons.prems obtain c1 a1 where
    p: "routesLoop e spec (getOrderedRoutes e n) (c, a) = Inr (c1, a1)"
    and q: "namespacesLoop e spec nss (c1, a1) = Inr (c', a')"
    by (metis namespacesLoop_Cons_cases surj_pair)
  from routesLoop_resources[OF p] Cons.IH[OF q] show ?case by simp
qed

lemma getGroupedRoutes_resources:
  "getGroupedRoutes e c g spec = Inr (c', routes) \<Longrightarrow> resources c' = resources c"
  by (auto simp: getGroupedRoutes_def split: option.splits dest: namespacesLoop_resources)

lemma updatePoolMembers_names:
  "map MonitorNames (Pools (updatePoolMembers e rsCfg ns)) = map MonitorNames (Pools rsCfg)"
  by (simp add: updatePoolMembers_def)

lemma named_by_pool:
  "list_ex (\<lambda>p. n \<in> set (MonitorNames p)) ps \<longleftrightarrow> (\<exists>ms\<in>set (map MonitorNames ps). n \<in> set ms)"
  by (auto simp: list_ex_iff)

lemma updatePoolMembers_keeps:
  "monitorsInUse routes (updatePoolMembers e rsCfg ns) = monitorsInUse routes rsCfg"
  "ordinalsZero (updatePoolMembers e rsCfg ns) = ordinalsZero rsCfg"
proof -
  have m: "Monitors (updatePoolMembers e rsCfg ns) = Monitors rsCfg"
    and p: "Policies (updatePoolMembers e rsCfg ns) = Policies rsCfg"
    by (simp_all add: updatePoolMembers_def)
  show "monitorsInUse routes (updatePoolMembers e rsCfg ns) = monitorsInUse routes rsCfg"
    unfolding monitorsInUse_def named_by_pool updatePoolMembers_names m ..
  show "ordinalsZero (updatePoolMembers e rsCfg ns) = ordinalsZero rsCfg"
    by (simp add: ordinalsZero_def p)
qed

lemma foldl_updatePoolMembers_keeps:
  "monitorsInUse routes (foldl (updatePoolMembers e) rsCfg nss) = monitorsInUse routes rsCfg"
  "ordinalsZero (foldl (updatePoolMembers e) rsCfg nss) = ordinalsZero rsCfg"
  by (induction nss arbitrary: rsCfg) (simp_all add: updatePoolMembers_keeps)

lemma portLoop_inv:
  assumes "portLoop e extdSpec part nss routes ports (vsMap, ctlr) = Inr (err, vsMap', ctlr')"
  shows "storedBefore (ltmConfig (resources ctlr)) (ltmConfig (resources ctlr'))
       \<and> extdSpecMap (resources ctlr') = extdSpecMap (resources ctlr)
       \<and> (\<forall>nm cfg. vsMap' nm = Some cfg
             \<longrightarrow> vsMap nm = Some cfg \<or> (monitorsInUse routes cfg \<and> ordinalsZero cfg))"
  using assms
proof (induction ports arbitrary: vsMap ctlr)
  case Nil
  then show ?case by (simp add: storedBefore_refl)
next
  case (Cons ps rest)
  let ?n = "frameRouteVSName (VServerName extdSpec) (VServerAddr extdSpec) ps"
  show ?case
  proof (cases "protocol_ps ps = ''http'' \<and> \<not> doRoutesHandleHTTP routes")
    case True
    with Cons.prems have "portLoop e extdSpec part nss routes rest
        (vsMap, deleteVirtualServer ctlr part ?n) = Inr (err, vsMap', ctlr')"
      by (simp add: Let_def)
    from Cons.IH[OF this] deleteVirtualServer_stored[of ctlr part ?n]
      deleteVirtualServer_extdSpecMap[of ctlr part ?n]
    show ?thesis by (auto intro: storedBefore_trans)
  next
    case False
    with Cons.prems obtain e1 cfg c1 where
      b: "buildConfig e extdSpec part routes ps ctlr = Inr (e1, cfg, c1)"
      by (auto simp: Let_def split: sum.splits)
    note i = buildConfig_inv[OF b]
    show ?thesis
    proof (cases e1)
      case True
      with Cons.prems False b have "vsMap' = vsMap" "ctlr' = c1" by (simp_all add: Let_def)
      with i show ?thesis by (simp add: storedBefore_refl)
    next
      case ne: False
      with Cons.prems False b have "portLoop e extdSpec part nss routes rest
          (vsMap(?n \<mapsto> foldl (updatePoolMembers e) cfg nss), c1) = Inr (err, vsMap', ctlr')"
        by (simp add: Let_def)
      note ih = Cons.IH[OF this]
      have "vsMap nm = Some c \<or> (monitorsInUse routes c \<and> ordinalsZero c)"
        if "vsMap' nm = Some c" for nm c
      proof -
        from ih that
        have "(vsMap(?n \<mapsto> foldl (updatePoolMembers e) cfg nss)) nm = Some c
              \<or> (monitorsInUse routes c \<and> ordinalsZero c)" by blast
        then show ?thesis
        proof
          assume a: "(vsMap(?n \<mapsto> foldl (updatePoolMembers e) cfg nss)) nm = Some c"
          show ?thesis
          proof (cases "nm = ?n")
            case True
            with a have "c = foldl (updatePoolMembers e) cfg nss" by simp
            with i show ?thesis by (simp add: foldl_updatePoolMembers_keeps)
          next
            case False
            with a show ?thesis by simp
          qed
        qed simp
      qed
      with ih i show ?thesis by simp
    qed
  qed
qed

section \<open>Publishing\<close>

lemma getLTMConfigCopy_same: "getLTMConfigCopy rs = ltmConfig rs"
  by (auto simp: getLTMConfigCopy_def fun_eq_iff split: option.splits)

lemma updateCaches_store:
  "updateCaches rs = rs\<lparr>ltmConfigCache := ltmConfig rs, dnsConfigCache := Map.empty\<rparr>"
  by (simp add: updateCaches_def getGTMConfigCopy_def getLTMConfigCopy_same)

text \<open>
  A publish happens only on an empty queue and a store that differs from its caches:
  otherwise nothing is posted and the controller is unchanged.
\<close>

lemma publishCheck_guard:
  "queueLen \<noteq> 0 \<or> \<not> isConfigUpdated (resources ctlr) \<Longrightarrow> publishCheck queueLen ctlr = ctlr"
  by (auto simp: publishCheck_def postResourceConfigRequest_def)

text \<open>
  After a publish the LTM cache equals the LTM config and the DNS cache is empty; the
  request carries the LTM config and an empty DNS config.
\<close>

lemma postResourceConfigRequest_publish:
  assumes "isConfigUpdated (resources ctlr)"
  shows "posted (postResourceConfigRequest ctlr)
           = posted ctlr @ [\<lparr>ltmConfig_req = ltmConfig (resources ctlr),
                               shareNodes_req = shareNodes ctlr, gtmConfig_req = Map.empty,
                               defaultRouteDomain_req = defaultRouteDomain ctlr\<rparr>]"
    and "ltmConfigCache (resources (postResourceConfigRequest ctlr)) = ltmConfig (resources ctlr)"
    and "dnsConfigCache (resources (postResourceConfigRequest ctlr)) = Map.empty"
    and "ltmConfig (resources (postResourceConfigRequest ctlr)) = ltmConfig (resources ctlr)"
    and "dnsConfig (resources (postResourceConfigRequest ctlr)) = dnsConfig (resources ctlr)"
  using assms
  by (simp_all add: postResourceConfigRequest_def getGTMConfigCopy_def updateCaches_store
      getLTMConfigDeepCopy_def)

text \<open>
  A repeated publish check posts nothing more exactly when the store holds no WideIP.
\<close>

lemma postResourceConfigRequest_repeated:
  assumes "isConfigUpdated (resources ctlr)"
  shows "posted (postResourceConfigRequest (postResourceConfigRequest ctlr))
           = posted (postResourceConfigRequest ctlr)
         \<longleftrightarrow> dnsConfig (resources ctlr) = Map.empty"
proof -
  let ?c = "postResourceConfigRequest ctlr"
  note p = postResourceConfigRequest_publish[OF assms]
  have u: "isConfigUpdated (resources ?c) \<longleftrightarrow> dnsConfig (resources ctlr) \<noteq> Map.empty"
    by (simp add: isConfigUpdated_def p)
  show ?thesis
  proof (cases "dnsConfig (resources ctlr) = Map.empty")
    case True
    with u have "postResourceConfigRequest ?c = ?c" by (simp add: postResourceConfigRequest_def)
    with True show ?thesis by simp
  next
    case False
    with u have "isConfigUpdated (resources ?c)" by simp
    from postResourceConfigRequest_publish(1)[OF this] False show ?thesis by simp
  qed
qed

text \<open>
  Claim C5. After a publish the caches are to equal what was published, so that a
  repeated publish check with an unchanged configuration publishes nothing. For a
  store that holds the WideIP of \<open>a.com\<close> and no LTM config, with empty caches and an
  empty queue: the first check publishes a request whose DNS config is empty and
  leaves the DNS cache empty, and the repeated check on the unchanged store publishes
  a second request.
\<close>

theorem publishCheck_repeats:
  "map gtmConfig_req (posted (publishCheck 0 exDnsController)) = [Map.empty]
   \<and> dnsConfig (resources (publishCheck 0 exDnsController)) = [''a.com'' \<mapsto> exWideIP]
   \<and> dnsConfigCache (resources (publishCheck 0 exDnsController)) = Map.empty
   \<and> resources (publishCheck 0 exDnsController) = resources exDnsController
   \<and> length (posted (publishCheck 0 (publishCheck 0 exDnsController))) = 2"
proof -
  have u: "isConfigUpdated (resources exDnsController)"
    by (simp add: isConfigUpdated_def exDnsController_def exStore_def)
  have d: "dnsConfig (resources exDnsController) = [''a.com'' \<mapsto> exWideIP]"
    "posted exDnsController = []" "ltmConfig (resources exDnsController) = Map.empty"
    "ltmConfigCache (resources exDnsController) = Map.empty"
    "dnsConfigCache (resources exDnsController) = Map.empty"
    by (simp_all add: exDnsController_def exStore_def exController_def)
  note p = postResourceConfigRequest_publish[OF u]
  have u2: "isConfigUpdated (resources (postResourceConfigRequest exDnsController))"
    by (simp add: isConfigUpdated_def p d)
  note p2 = postResourceConfigRequest_publish(1)[OF u2]
  have r: "resources (postResourceConfigRequest exDnsController) = resources exDnsController"
    using u by (simp add: postResourceConfigRequest_def getGTMConfigCopy_def updateCaches_store
        exDnsController_def exStore_def exController_def)
  show ?thesis by (simp add: publishCheck_def p p2 d r)
qed

section \<open>Internal data groups: sortedness of the records\<close>

lemma searchLoop_least:
  assumes "\<And>a b. a \<le> b \<Longrightarrow> b < n \<Longrightarrow> f a \<Longrightarrow> f b"
    and "i \<le> j" "j \<le> n" "\<forall>k<i. \<not> f k" "j < n \<longrightarrow> f j"
  shows "i \<le> searchLoop f i j \<and> searchLoop f i j \<le> j \<and> (\<forall>k < searchLoop f i j. \<not> f k) \<and> (searchLoop f i j < n \<longrightarrow> f (searchLoop f i j))"
  using assms
proof (induction f i j rule: searchLoop.induct)
  case (1 f i j)
  show ?case
  proof (cases "i < j")
    case False
    then have "searchLoop f i j = i" by (simp add: searchLoop.simps[of f i j])
    with False 1(3-) show ?thesis by auto
  next
    case True
    let ?h = "(i + j) div 2"
    have hb: "i \<le> ?h" "?h < j" using True by auto
    show ?thesis
    proof (cases "f ?h")
      case fh: True
      have e: "searchLoop f i j = searchLoop f i ?h" using \<open>i < j\<close> fh by (simp add: Let_def searchLoop.simps[of f i j])
      have "i \<le> searchLoop f i ?h \<and> searchLoop f i ?h \<le> ?h \<and> (\<forall>k < searchLoop f i ?h. \<not> f k) \<and> (searchLoop f i ?h < n \<longrightarrow> f (searchLoop f i ?h))"
        apply (rule 1(2)[OF \<open>i < j\<close> refl _ 1(3)])
        using fh hb 1(4-) by auto
      then show ?thesis unfolding e using hb by auto
    next
      case nfh: False
      have nf: "\<forall>k<?h + 1. \<not> f k"
      proof (intro allI impI)
        fix k assume "k < ?h + 1"
        then have kh: "k \<le> ?h" by simp
        have "?h < n" using hb 1(5) by simp
        from 1(3)[OF kh this] nfh show "\<not> f k" by auto
      qed
      have e: "searchLoop f i j = searchLoop f (?h + 1) j" using \<open>i < j\<close> nfh by (simp add: Let_def searchLoop.simps[of f i j])
      have "?h + 1 \<le> searchLoop f (?h+1) j \<and> searchLoop f (?h+1) j \<le> j \<and> (\<forall>k < searchLoop f (?h+1) j. \<not> f k) \<and> (searchLoop f (?h+1) j < n \<longrightarrow> f (searchLoop f (?h+1) j))"
        apply (rule 1(1)[OF \<open>i < j\<close> refl _ 1(3)])
        using nfh hb 1(4-) nf by auto
      then show ?thesis unfolding e using hb by auto
    qed
  qed
qed

lemma recordsSorted_nth_less:
  "recordsSorted rs \<Longrightarrow> a < b \<Longrightarrow> b < length rs \<Longrightarrow> Name_rec (rs ! a) < Name_rec (rs ! b)"
  unfolding recordsSorted_def by (simp add: sorted_wrt_iff_nth_less)

lemma nameSearch_spec:
  fixes name :: string
  assumes "recordsSorted rs"
  defines "i \<equiv> sortSearch (length rs) (\<lambda>i. Name_rec (rs ! i) \<ge> name)"
  shows "i \<le> length rs" "\<forall>k<i. Name_rec (rs ! k) < name" "i < length rs \<longrightarrow> name \<le> Name_rec (rs ! i)"
proof -
  have mono: "\<And>a b. a \<le> b \<Longrightarrow> b < length rs \<Longrightarrow> name \<le> Name_rec (rs ! a) \<Longrightarrow> name \<le> Name_rec (rs ! b)"
  proof -
    fix a b assume ab: "a \<le> b" "b < length rs" "name \<le> Name_rec (rs ! a)"
    show "name \<le> Name_rec (rs ! b)"
    proof (cases "a = b")
      case True with ab show ?thesis by simp
    next
      case False
      with ab have "a < b" by simp
      from recordsSorted_nth_less[OF assms(1) this ab(2)] ab(3) show ?thesis by simp
    qed
  qed
  have "0 \<le> searchLoop (\<lambda>i. Name_rec (rs ! i) \<ge> name) 0 (length rs) \<and> searchLoop (\<lambda>i. Name_rec (rs ! i) \<ge> name) 0 (length rs) \<le> length rs
     \<and> (\<forall>k < searchLoop (\<lambda>i. Name_rec (rs ! i) \<ge> name) 0 (length rs). \<not> (Name_rec (rs ! k) \<ge> name))
     \<and> (searchLoop (\<lambda>i. Name_rec (rs ! i) \<ge> name) 0 (length rs) < length rs \<longrightarrow> Name_rec (rs ! (searchLoop (\<lambda>i. Name_rec (rs ! i) \<ge> name) 0 (length rs))) \<ge> name)"
    by (rule searchLoop_least[where n = "length rs"]) (use mono in auto)
  then show "i \<le> length rs" "\<forall>k<i. Name_rec (rs ! k) < name" "i < length rs \<longrightarrow> name \<le> Name_rec (rs ! i)"
    unfolding i_def sortSearch_def by auto
qed

lemma nameSearch_found:
  assumes s: "recordsSorted rs" and k: "k < length rs" "Name_rec (rs ! k) = name"
  shows "sortSearch (length rs) (\<lambda>i. Name_rec (rs ! i) \<ge> name) = k"
proof -
  let ?i = "sortSearch (length rs) (\<lambda>i. Name_rec (rs ! i) \<ge> name)"
  note sp = nameSearch_spec[OF s, of name]
  have "\<not> k < ?i" using sp(2) k by auto
  moreover have "\<not> ?i < k"
  proof
    assume lt: "?i < k"
    then have "?i < length rs" using k by simp
    with sp(3) have "name \<le> Name_rec (rs ! ?i)" by simp
    moreover from recordsSorted_nth_less[OF s lt k(1)] have "Name_rec (rs ! ?i) < name" using k by simp
    ultimately show False by simp
  qed
  ultimately show ?thesis by simp
qed

lemma recordsSorted_insert:
  assumes s: "recordsSorted rs" and i: "i \<le> length rs"
    and lo: "\<forall>k<i. Name_rec (rs ! k) < name" and hi: "i < length rs \<longrightarrow> name < Name_rec (rs ! i)"
  shows "recordsSorted (take i rs @ [\<lparr>Name_rec = name, Data_rec = data\<rparr>] @ drop i rs)"
proof -
  have a: "\<forall>x \<in> set (take i rs). Name_rec x < name"
    using lo i by (auto simp: in_set_conv_nth)
  have b: "\<forall>y \<in> set (drop i rs). name < Name_rec y"
  proof
    fix y assume "y \<in> set (drop i rs)"
    then obtain m where m: "m < length rs - i" "y = rs ! (i + m)"
      by (auto simp: in_set_conv_nth)
    then have il: "i < length rs" by simp
    show "name < Name_rec y"
    proof (cases "m = 0")
      case True with m hi il show ?thesis by simp
    next
      case False
      then have "i < i + m" by simp
      from recordsSorted_nth_less[OF s this] m have "Name_rec (rs ! i) < Name_rec y" by simp
      with hi il show ?thesis by simp
    qed
  qed
  have c: "sorted_wrt (<) (map Name_rec (take i rs))" "sorted_wrt (<) (map Name_rec (drop i rs))"
    using s unfolding recordsSorted_def
    by (simp_all add: take_map[symmetric] drop_map[symmetric] sorted_wrt_take sorted_wrt_drop)
  have d: "\<forall>x \<in> set (take i rs). \<forall>y \<in> set (drop i rs). Name_rec x < Name_rec y"
    using a b by fastforce
  show ?thesis unfolding recordsSorted_def
    using a b c d by (auto simp: sorted_wrt_append)
qed

lemma recordsSorted_remove:
  assumes s: "recordsSorted rs"
  shows "recordsSorted (take i rs @ drop (i + 1) rs)"
proof -
  have "sorted_wrt (<) (map Name_rec (take i rs) @ map Name_rec (drop i rs))"
    using s unfolding recordsSorted_def by (simp add: map_append[symmetric] del: map_append)
  then have "sorted_wrt (<) (map Name_rec (take i rs) @ tl (map Name_rec (drop i rs)))"
    by (cases "map Name_rec (drop i rs)") (auto simp: sorted_wrt_append)
  then show ?thesis unfolding recordsSorted_def by (simp add: map_tl[symmetric] tl_drop drop_Suc del: map_tl)
qed


text \<open>
  Claim C10. Strictly ascending record names (sorted, no two records with one name) are
  preserved by \<open>AddOrUpdateRecord\<close> and by \<open>RemoveRecord\<close>;
  \<open>AddOrUpdateRecord\<close> returns false exactly when a record with this name and
  this data is already there, and then leaves the records as they were.
\<close>

theorem dataGroupRecords_sorted_unique:
  assumes s: "recordsSorted recs"
  shows "recordsSorted (fst (AddOrUpdateRecord recs name data))
       \<and> recordsSorted (fst (RemoveRecord recs name))
       \<and> (snd (AddOrUpdateRecord recs name data) = False
            \<longleftrightarrow> \<lparr>Name_rec = name, Data_rec = data\<rparr> \<in> set recs)
       \<and> (snd (AddOrUpdateRecord recs name data) = False
            \<longrightarrow> fst (AddOrUpdateRecord recs name data) = recs)"
proof -
  let ?i = "sortSearch (length recs) (\<lambda>i. Name_rec (recs ! i) \<ge> name)"
  note sp = nameSearch_spec[OF s, of name]
  have A: "recordsSorted (fst (AddOrUpdateRecord recs name data))"
  proof (cases "?i < length recs \<and> Name_rec (recs ! ?i) = name")
    case True
    have "map Name_rec (recs[?i := (recs ! ?i)\<lparr>Data_rec := data\<rparr>]) = map Name_rec recs"
      using True by (simp add: map_update list_update_same_conv)
    with True s show ?thesis
      by (simp add: AddOrUpdateRecord_def Let_def recordsSorted_def)
  next
    case False
    then have hi: "?i < length recs \<longrightarrow> name < Name_rec (recs ! ?i)"
      using sp(3) by auto
    from False have "fst (AddOrUpdateRecord recs name data)
        = take ?i recs @ [\<lparr>Name_rec = name, Data_rec = data\<rparr>] @ drop ?i recs"
      by (auto simp: AddOrUpdateRecord_def Let_def)
    with recordsSorted_insert[OF s sp(1) sp(2) hi, of data] show ?thesis
      by simp
  qed
  have B: "recordsSorted (fst (RemoveRecord recs name))"
    using s recordsSorted_remove[OF s, of ?i] by (simp add: RemoveRecord_def Let_def)
  have C: "snd (AddOrUpdateRecord recs name data) = False
            \<longleftrightarrow> \<lparr>Name_rec = name, Data_rec = data\<rparr> \<in> set recs"
  proof
    assume "snd (AddOrUpdateRecord recs name data) = False"
    then have "?i < length recs \<and> Name_rec (recs ! ?i) = name \<and> Data_rec (recs ! ?i) = data"
      by (auto simp: AddOrUpdateRecord_def Let_def split: if_splits)
    then have "?i < length recs" "recs ! ?i = \<lparr>Name_rec = name, Data_rec = data\<rparr>" by auto
    then show "\<lparr>Name_rec = name, Data_rec = data\<rparr> \<in> set recs" by (metis nth_mem)
  next
    assume "\<lparr>Name_rec = name, Data_rec = data\<rparr> \<in> set recs"
    then obtain k where k: "k < length recs" "recs ! k = \<lparr>Name_rec = name, Data_rec = data\<rparr>"
      by (auto simp: in_set_conv_nth)
    then have "Name_rec (recs ! k) = name" by simp
    from nameSearch_found[OF s k(1) this] k
    show "snd (AddOrUpdateRecord recs name data) = False"
      by (simp add: AddOrUpdateRecord_def Let_def)
  qed
  have D: "snd (AddOrUpdateRecord recs name data) = False
            \<longrightarrow> fst (AddOrUpdateRecord recs name data) = recs"
    by (auto simp: AddOrUpdateRecord_def Let_def split: if_splits)
  from A B C D show ?thesis by blast
qed

theorem dataGroupRecords_sorted_unique_witness:
  "recordsSorted [\<lparr>Name_rec = ''a'', Data_rec = ''1''\<rparr>, \<lparr>Name_rec = ''c'', Data_rec = ''1''\<rparr>]
   \<and> fst (AddOrUpdateRecord [\<lparr>Name_rec = ''a'', Data_rec = ''1''\<rparr>, \<lparr>Name_rec = ''c'', Data_rec = ''1''\<rparr>] ''b'' ''x'')
       = [\<lparr>Name_rec = ''a'', Data_rec = ''1''\<rparr>, \<lparr>Name_rec = ''b'', Data_rec = ''x''\<rparr>, \<lparr>Name_rec = ''c'', Data_rec = ''1''\<rparr>]
   \<and> recordsSorted (fst (AddOrUpdateRecord [\<lparr>Name_rec = ''a'', Data_rec = ''1''\<rparr>, \<lparr>Name_rec = ''c'', Data_rec = ''1''\<rparr>] ''b'' ''x''))
   \<and> recordsSorted (fst (RemoveRecord [\<lparr>Name_rec = ''a'', Data_rec = ''1''\<rparr>, \<lparr>Name_rec = ''c'', Data_rec = ''1''\<rparr>] ''c''))
   \<and> snd (AddOrUpdateRecord [\<lparr>Name_rec = ''a'', Data_rec = ''1''\<rparr>, \<lparr>Name_rec = ''c'', Data_rec = ''1''\<rparr>] ''c'' ''1'') = False"
proof -
  have h: "recordsSorted [\<lparr>Name_rec = ''a'', Data_rec = ''1''\<rparr>, \<lparr>Name_rec = ''c'', Data_rec = ''1''\<rparr>]"
    by (simp add: recordsSorted_def)
  have e: "fst (AddOrUpdateRecord [\<lparr>Name_rec = ''a'', Data_rec = ''1''\<rparr>, \<lparr>Name_rec = ''c'', Data_rec = ''1''\<rparr>] ''b'' ''x'')
       = [\<lparr>Name_rec = ''a'', Data_rec = ''1''\<rparr>, \<lparr>Name_rec = ''b'', Data_rec = ''x''\<rparr>, \<lparr>Name_rec = ''c'', Data_rec = ''1''\<rparr>]"
    by (simp add: AddOrUpdateRecord_def sortSearch_def searchLoop.simps)
  from h e dataGroupRecords_sorted_unique [OF h, of "''b''" "''x''"]
    dataGroupRecords_sorted_unique [OF h, of "''c''" "''1''"]
  show ?thesis by simp
qed


end
